theory Spec2Isabelle
  imports Complex_Main
begin

section \<open>Python values used by the gateway\<close>

text \<open>
  Python floats are modelled as real numbers (exact arithmetic), Python ints as
  \<open>int\<close>. Readings of \<open>time.monotonic()\<close> and \<open>time.perf_counter()\<close> are
  arguments of the functions that take them in the source. Exceptions are values.
\<close>

datatype exn =
    ValueError string
  | IndexError
  | HTTPException int string
  | WebSocketException int string
  | OllamaServiceError string int
  | ValidationError string
  | RuntimeError string

section \<open>rate\_limiter.py\<close>

record bucket =
  tokens :: real
  timestamp :: real

record RateLimiter =
  rate :: real
  capacity :: real
  buckets :: "string \<rightharpoonup> bucket"

text \<open>\<open>RateLimiter.__init__(rate, burst)\<close>: both checks raise ValueError.\<close>

definition RateLimiter_init :: "real \<Rightarrow> int \<Rightarrow> exn + RateLimiter" where
  "RateLimiter_init r burst =
     (if r \<le> 0 then Inl (ValueError ''rate must be > 0'')
      else if burst \<le> 0 then Inl (ValueError ''burst must be > 0'')
      else Inr \<lparr>rate = r, capacity = real_of_int burst, buckets = Map.empty\<rparr>)"

text \<open>
  \<open>RateLimiter.allow(client_id)\<close>, with \<open>now\<close> the reading of the monotonic
  clock taken on entry. The body runs under the lock, so one call is one step.
\<close>

definition allow :: "real \<Rightarrow> string \<Rightarrow> RateLimiter \<Rightarrow> bool \<times> RateLimiter" where
  "allow now client_id self =
     (let b = (case buckets self client_id of
                 None \<Rightarrow> \<lparr>tokens = capacity self, timestamp = now\<rparr>
               | Some b0 \<Rightarrow> b0);
          elapsed = max 0 (now - timestamp b);
          refilled = min (capacity self) (tokens b + elapsed * rate self)
      in if refilled < 1
         then (False, self\<lparr>buckets := (buckets self)(client_id \<mapsto>
                 \<lparr>tokens = refilled, timestamp = now\<rparr>)\<rparr>)
         else (True, self\<lparr>buckets := (buckets self)(client_id \<mapsto>
                 \<lparr>tokens = refilled - 1, timestamp = now\<rparr>)\<rparr>))"

text \<open>
  A finite sequence of calls, each with its clock reading and client, in the order in
  which they take the lock; the results are returned in the same order.
\<close>

fun allow_seq :: "RateLimiter \<Rightarrow> (real \<times> string) list \<Rightarrow> bool list \<times> RateLimiter" where
  "allow_seq self [] = ([], self)"
| "allow_seq self ((now, client_id) # calls) =
     (case allow now client_id self of
        (r, self') \<Rightarrow> (case allow_seq self' calls of (rs, self'') \<Rightarrow> (r # rs, self'')))"

text \<open>The results that the calls of one client received, in order.\<close>

definition results_of :: "string \<Rightarrow> RateLimiter \<Rightarrow> (real \<times> string) list \<Rightarrow> bool list" where
  "results_of client_id self calls =
     map snd (filter (\<lambda>(call, r). snd call = client_id) (zip calls (fst (allow_seq self calls))))"

text \<open>Every stored bucket holds between 0 and \<open>capacity\<close> tokens.\<close>

definition buckets_within :: "RateLimiter \<Rightarrow> bool" where
  "buckets_within L =
     (\<forall>c b. buckets L c = Some b \<longrightarrow> 0 \<le> tokens b \<and> tokens b \<le> capacity L)"

text \<open>Two limiters that have the same parameters and the same bucket for one client.\<close>

definition agree_on :: "string \<Rightarrow> RateLimiter \<Rightarrow> RateLimiter \<Rightarrow> bool" where
  "agree_on B L1 L2 =
     (rate L1 = rate L2 \<and> capacity L1 = capacity L2 \<and> buckets L1 B = buckets L2 B)"

subsection \<open>The limiter in double-precision arithmetic\<close>

text \<open>
  Python floats are IEEE 754 binary64 numbers, and every arithmetic operation on them
  returns the exact result rounded to the nearest representable number, ties to the number
  with an even significand. The definitions below give that rounding on the reals:
  \<open>binade x\<close> is the exponent \<open>e\<close> with \<open>2^e \<le> |x| < 2^(e+1)\<close>, the
  representable numbers around \<open>x\<close> are the integer multiples of
  \<open>2^(max e (-1022) - 52)\<close> (52 fraction bits, gradual underflow below \<open>2^(-1022)\<close>),
  and \<open>fl x\<close> is the nearest of them. Overflow to infinity is not part of the model:
  it would need clock readings or rates above \<open>10^308\<close>.
\<close>

definition round_half_even :: "real \<Rightarrow> int" where
  "round_half_even x =
     (let n = \<lfloor>x\<rfloor>; d = x - real_of_int n
      in if d < 1 / 2 then n else if 1 / 2 < d then n + 1 else if even n then n else n + 1)"

definition binade :: "real \<Rightarrow> int" where
  "binade x = \<lfloor>log 2 \<bar>x\<bar>\<rfloor>"

definition ulp_exponent :: "real \<Rightarrow> int" where
  "ulp_exponent x = max (binade x) (- 1022) - 52"

definition fl :: "real \<Rightarrow> real" where
  "fl x = (if x = 0 then 0
          else real_of_int (round_half_even (x / 2 powi ulp_exponent x)) * 2 powi ulp_exponent x)"

text \<open>
  \<open>RateLimiter.allow(client_id)\<close> as Python computes it: the subtraction
  \<open>now - timestamp\<close>, the product \<open>elapsed * self.rate\<close>, the sum
  \<open>tokens + elapsed * self.rate\<close> and the subtraction \<open>tokens - 1.0\<close> are each
  rounded; \<open>max\<close> and \<open>min\<close> return one of their arguments and the comparison with
  \<open>1.0\<close> is exact. The definition \<open>allow\<close> above is the same function with the
  roundings left out.
\<close>

definition allow_double :: "real \<Rightarrow> string \<Rightarrow> RateLimiter \<Rightarrow> bool \<times> RateLimiter" where
  "allow_double now client_id self =
     (let b = (case buckets self client_id of
                 None \<Rightarrow> \<lparr>tokens = capacity self, timestamp = now\<rparr>
               | Some b0 \<Rightarrow> b0);
          elapsed = max 0 (fl (now - timestamp b));
          refilled = min (capacity self) (fl (tokens b + fl (elapsed * rate self)))
      in if refilled < 1
         then (False, self\<lparr>buckets := (buckets self)(client_id \<mapsto>
                 \<lparr>tokens = refilled, timestamp = now\<rparr>)\<rparr>)
         else (True, self\<lparr>buckets := (buckets self)(client_id \<mapsto>
                 \<lparr>tokens = fl (refilled - 1), timestamp = now\<rparr>)\<rparr>))"

fun allow_double_seq :: "RateLimiter \<Rightarrow> (real \<times> string) list \<Rightarrow> bool list \<times> RateLimiter" where
  "allow_double_seq self [] = ([], self)"
| "allow_double_seq self ((now, client_id) # calls) =
     (case allow_double now client_id self of
        (r, self') \<Rightarrow>
          (case allow_double_seq self' calls of (rs, self'') \<Rightarrow> (r # rs, self'')))"

text \<open>
  The doubles nearest to 1/3 and to 2/3, that is, the values of the Python literals
  \<open>0.3333333333333333\<close> and \<open>0.6666666666666666\<close>.
\<close>

definition third_double :: real where
  "third_double = 6004799503160661 * 2 powi (- 54)"

definition two_thirds_double :: real where
  "two_thirds_double = 6004799503160661 * 2 powi (- 53)"

section \<open>metrics.py\<close>

text \<open>
  \<open>MetricsCollector\<close>: the latency window is a \<open>deque(maxlen=window_size)\<close>, kept
  as a list with the oldest sample first.
\<close>

record MetricsCollector =
  maxlen :: nat
  latencies :: "real list"
  requests_total :: int
  prompt_tokens_total :: int
  completion_tokens_total :: int

definition MetricsCollector_init :: "nat \<Rightarrow> MetricsCollector" where
  "MetricsCollector_init window_size =
     \<lparr>maxlen = window_size, latencies = [], requests_total = 0,
      prompt_tokens_total = 0, completion_tokens_total = 0\<rparr>"

text \<open>
  \<open>deque.append\<close> on a bounded deque: a full deque drops its oldest items.
\<close>

definition deque_append :: "nat \<Rightarrow> 'a list \<Rightarrow> 'a \<Rightarrow> 'a list" where
  "deque_append n xs x = (let ys = xs @ [x] in drop (length ys - n) ys)"

text \<open>
  \<open>MetricsCollector.record(latency_ms, prompt_tokens, completion_tokens)\<close>.
\<close>

definition metrics_record :: "MetricsCollector \<Rightarrow> real \<Rightarrow> int \<Rightarrow> int \<Rightarrow> MetricsCollector" where
  "metrics_record self latency_ms prompt completion =
     self\<lparr>requests_total := requests_total self + 1,
          prompt_tokens_total := prompt_tokens_total self + max 0 prompt,
          completion_tokens_total := completion_tokens_total self + max 0 completion,
          latencies := deque_append (maxlen self) (latencies self) (max 0 latency_ms)\<rparr>"

text \<open>Python list indexing: a negative index counts from the end, out of range raises.\<close>

definition py_getitem :: "'a list \<Rightarrow> int \<Rightarrow> exn + 'a" where
  "py_getitem xs i =
     (if 0 \<le> i \<and> i < int (length xs) then Inr (xs ! nat i)
      else if - int (length xs) \<le> i \<and> i < 0 then Inr (xs ! nat (int (length xs) + i))
      else Inl IndexError)"

text \<open>\<open>int(x)\<close> of a float truncates towards zero.\<close>

definition py_int_of_float :: "real \<Rightarrow> int" where
  "py_int_of_float x = (if 0 \<le> x then \<lfloor>x\<rfloor> else \<lceil>x\<rceil>)"

text \<open>\<open>_percentile(values, percentile)\<close>.\<close>

definition percentile :: "real list \<Rightarrow> real \<Rightarrow> exn + real" where
  "percentile values p =
     (if values = [] then Inr 0
      else
        let ordered = sort values;
            k = real_of_int (int (length ordered) - 1) * p;
            f = \<lfloor>k\<rfloor>;
            c = \<lceil>k\<rceil>
        in if f = c then py_getitem ordered (py_int_of_float k)
           else (case py_getitem ordered f of
                   Inl e \<Rightarrow> Inl e
                 | Inr lo \<Rightarrow>
                     (case py_getitem ordered c of
                        Inl e \<Rightarrow> Inl e
                      | Inr hi \<Rightarrow> Inr (lo * (real_of_int c - k) + hi * (k - real_of_int f)))))"

record metrics_snapshot =
  snap_requests_total :: int
  snap_tokens_prompt_total :: int
  snap_tokens_completion_total :: int
  snap_latency_ms_p50 :: real
  snap_latency_ms_p95 :: real

text \<open>\<open>MetricsCollector.snapshot()\<close>.\<close>

definition snapshot :: "MetricsCollector \<Rightarrow> exn + metrics_snapshot" where
  "snapshot self =
     (case percentile (latencies self) (1 / 2) of
        Inl e \<Rightarrow> Inl e
      | Inr p50 \<Rightarrow>
          (case percentile (latencies self) (95 / 100) of
             Inl e \<Rightarrow> Inl e
           | Inr p95 \<Rightarrow>
               Inr \<lparr>snap_requests_total = requests_total self,
                    snap_tokens_prompt_total = prompt_tokens_total self,
                    snap_tokens_completion_total = completion_tokens_total self,
                    snap_latency_ms_p50 = p50,
                    snap_latency_ms_p95 = p95\<rparr>))"

text \<open>
  The percentile as the specification words it: sort the window, \<open>k = (n-1) * p\<close>,
  \<open>f = floor(k)\<close>, \<open>c = ceil(k)\<close>; \<open>values[k]\<close> if \<open>f = c\<close>, else
  \<open>values[f]*(c-k) + values[c]*(k-f)\<close>; 0 for an empty window.
\<close>

definition spec_percentile :: "real list \<Rightarrow> real \<Rightarrow> real" where
  "spec_percentile values p =
     (if values = [] then 0
      else
        let ordered = sort values;
            k = real (length ordered - 1) * p;
            f = nat \<lfloor>k\<rfloor>;
            c = nat \<lceil>k\<rceil>
        in if f = c then ordered ! f
           else ordered ! f * (real c - k) + ordered ! c * (k - real f))"

section \<open>schemas.py\<close>

record ChatMessage =
  role :: string
  content :: string

record ChatRequest =
  model :: "string option"
  messages :: "ChatMessage list"
  stream :: bool
  temperature :: "real option"
  top_p :: "real option"
  seed :: "int option"

record UsageStats =
  prompt_tokens :: int
  completion_tokens :: int
  total_tokens :: int

text \<open>\<open>UsageStats()\<close>: every counter defaults to 0.\<close>

definition UsageStats_default :: UsageStats where
  "UsageStats_default = \<lparr>prompt_tokens = 0, completion_tokens = 0, total_tokens = 0\<rparr>"

text \<open>\<open>ChatRequest.validate_messages\<close>.\<close>

definition validate_messages :: "ChatMessage list \<Rightarrow> exn + ChatMessage list" where
  "validate_messages v =
     (if v = [] then Inl (ValueError ''messages must contain at least one item'') else Inr v)"

definition in_range :: "real \<Rightarrow> real \<Rightarrow> real option \<Rightarrow> bool" where
  "in_range lo hi v = (case v of None \<Rightarrow> True | Some x \<Rightarrow> lo \<le> x \<and> x \<le> hi)"

text \<open>
  Construction of a \<open>ChatRequest\<close> from fields that already have the declared Python
  types: the field constraints (\<open>Literal\<close> roles, \<open>ge\<close>/\<open>le\<close> bounds) and the
  \<open>messages\<close> validator; a failure is pydantic's ValidationError.
\<close>

definition ChatRequest_validate :: "ChatRequest \<Rightarrow> exn + ChatRequest" where
  "ChatRequest_validate raw =
     (if \<not> list_all (\<lambda>m. role m \<in> set [''system'', ''user'', ''assistant'']) (messages raw)
      then Inl (ValidationError ''role'')
      else case validate_messages (messages raw) of
        Inl e \<Rightarrow> Inl (ValidationError ''messages'')
      | Inr ms \<Rightarrow>
          if \<not> in_range 0 2 (temperature raw) then Inl (ValidationError ''temperature'')
          else if \<not> in_range 0 1 (top_p raw) then Inl (ValidationError ''top_p'')
          else if (case seed raw of None \<Rightarrow> False | Some n \<Rightarrow> n < 0)
          then Inl (ValidationError ''seed'')
          else Inr raw)"

section \<open>ollama\_client.py: what the gateway sees of the backend\<close>

text \<open>
  A decoded chunk of \<open>stream_chat\<close>, with every field typed as the backend sends it:
  texts are strings, \<open>done\<close> a boolean, the counters integers; \<open>None\<close> is an absent
  key (or JSON null). A chunk with fields of other JSON types is outside this model.
\<close>

record chunk =
  c_error :: "string option"
  c_response :: "string option"
  c_message :: "string option option"
  c_done :: "bool option"
  c_prompt_eval_count :: "int option"
  c_eval_count :: "int option"

text \<open>
  The lazy sequence \<open>stream_chat\<close> produces: its chunks, then either the end of the
  stream or an \<open>OllamaServiceError\<close> (message, status code) raised by the client.
\<close>

record backend_stream =
  chunks :: "chunk list"
  failure :: "(string \<times> int) option"

section \<open>main.py: the streaming handlers\<close>

text \<open>The payloads of the events, before they are framed for the wire.\<close>

datatype event =
    TokenEvent string
  | DoneEvent string UsageStats int
  | ErrorEvent string "string option"


text \<open>
  Truthiness of an optional string: \<open>None\<close> and the empty string are falsy.
\<close>

definition truthy_str :: "string option \<Rightarrow> string option" where
  "truthy_str v = (case v of None \<Rightarrow> None | Some s \<Rightarrow> if s = [] then None else Some s)"

text \<open>\<open>_token_from_chunk(chunk)\<close>.\<close>

definition token_from_chunk :: "chunk \<Rightarrow> string" where
  "token_from_chunk ch =
     (case truthy_str (c_response ch) of
        Some r \<Rightarrow> r
      | None \<Rightarrow>
          (case c_message ch of
             None \<Rightarrow> []
           | Some message \<Rightarrow>
               (case truthy_str message of Some c \<Rightarrow> c | None \<Rightarrow> [])))"

text \<open>\<open>_usage_from_chunk(chunk)\<close>; a missing counter (or 0) gives 0.\<close>

definition usage_from_chunk :: "chunk \<Rightarrow> UsageStats" where
  "usage_from_chunk ch =
     \<lparr>prompt_tokens = (case c_prompt_eval_count ch of None \<Rightarrow> 0 | Some n \<Rightarrow> n),
      completion_tokens = (case c_eval_count ch of None \<Rightarrow> 0 | Some n \<Rightarrow> n),
      total_tokens = 0\<rparr>"

text \<open>\<open>_map_status(status_code)\<close>.\<close>

definition map_status :: "int \<Rightarrow> int" where
  "map_status status_code = (if status_code \<ge> 500 then 502 else status_code)"

text \<open>\<open>int((time.perf_counter() - started) * 1000)\<close>.\<close>

definition latency_of :: "real \<Rightarrow> real \<Rightarrow> int" where
  "latency_of started finished = py_int_of_float ((finished - started) * 1000)"

text \<open>
  The state of one run of \<open>_sse_chat_generator\<close>: the tokens collected, the events
  yielded so far, the metrics collector and the number of chunks taken from the backend.
\<close>

record sse_state =
  collected :: "string list"
  yielded :: "event list"
  sse_metrics :: MetricsCollector
  sse_consumed :: nat

datatype loop_exit = Exhausted | Finished | Raised exn

text \<open>
  The \<open>async for\<close> loop of \<open>_sse_chat_generator\<close>. \<open>started\<close> and \<open>finished\<close> are
  the two readings of \<open>time.perf_counter()\<close> that a run takes. \<open>Finished\<close> is the
  \<open>break\<close> after the done event (\<open>done_sent = True\<close>).
\<close>

fun sse_loop :: "real \<Rightarrow> real \<Rightarrow> chunk list \<Rightarrow> sse_state \<Rightarrow> loop_exit \<times> sse_state" where
  "sse_loop started finished [] st = (Exhausted, st)"
| "sse_loop started finished (ch # rest) st =
     (let st1 = st\<lparr>sse_consumed := sse_consumed st + 1\<rparr> in
      case truthy_str (c_error ch) of
        Some err \<Rightarrow> (Raised (HTTPException 502 err), st1)
      | None \<Rightarrow>
          (let token = token_from_chunk ch;
               st2 = (if token \<noteq> []
                      then st1\<lparr>collected := collected st1 @ [token],
                               yielded := yielded st1 @ [TokenEvent token]\<rparr>
                      else st1)
           in if c_done ch = Some True
              then
                (let usage = usage_from_chunk ch;
                     latency_ms = latency_of started finished;
                     usage' = usage\<lparr>total_tokens := prompt_tokens usage + completion_tokens usage\<rparr>;
                     m = metrics_record (sse_metrics st2) (real_of_int latency_ms)
                           (prompt_tokens usage') (completion_tokens usage')
                 in (Finished,
                     st2\<lparr>sse_metrics := m,
                         yielded := yielded st2 @
                           [DoneEvent (concat (collected st2)) usage' latency_ms]\<rparr>))
              else sse_loop started finished rest st2))"

text \<open>
  \<open>_sse_chat_generator\<close> run to its end by a consumer that takes every item: the final
  state and the exception that the generator raised, if any.
\<close>

definition sse_chat_generator ::
  "real \<Rightarrow> real \<Rightarrow> backend_stream \<Rightarrow> MetricsCollector \<Rightarrow> exn option \<times> sse_state" where
  "sse_chat_generator started finished bs metrics =
     (case sse_loop started finished (chunks bs)
             \<lparr>collected = [], yielded = [], sse_metrics = metrics, sse_consumed = 0\<rparr> of
        (Raised e, st) \<Rightarrow> (Some e, st)
      | (Finished, st) \<Rightarrow> (None, st)
      | (Exhausted, st) \<Rightarrow>
          (case failure bs of
             Some (msg, status_code) \<Rightarrow> (Some (HTTPException (map_status status_code) msg), st)
           | None \<Rightarrow>
               (let latency_ms = latency_of started finished;
                    usage = UsageStats_default;
                    m = metrics_record (sse_metrics st) (real_of_int latency_ms) 0 0
                in (None,
                    st\<lparr>sse_metrics := m,
                       yielded := yielded st @
                         [DoneEvent (concat (collected st)) usage latency_ms]\<rparr>))))"

text \<open>
  The WebSocket as the handlers use it: its \<open>application_state\<close> and the frames sent
  on it. \<open>send_json\<close> fails on a socket that is not connected.
\<close>

datatype WebSocketState = CONNECTING | CONNECTED | DISCONNECTED

record WebSocket =
  application_state :: WebSocketState
  sent :: "event list"

definition send_json :: "WebSocket \<Rightarrow> event \<Rightarrow> exn + WebSocket" where
  "send_json ws payload =
     (if application_state ws = CONNECTED then Inr (ws\<lparr>sent := sent ws @ [payload]\<rparr>)
      else Inl (RuntimeError ''send''))"

text \<open>\<open>_send_ws_error(websocket, message, details)\<close>.\<close>

definition send_ws_error :: "WebSocket \<Rightarrow> string \<Rightarrow> string option \<Rightarrow> WebSocket" where
  "send_ws_error ws message details =
     (if application_state ws \<noteq> CONNECTED then ws
      else ws\<lparr>sent := sent ws @ [ErrorEvent message details]\<rparr>)"

record ws_state =
  ws_collected :: "string list"
  websocket :: WebSocket
  ws_metrics :: MetricsCollector
  ws_consumed :: nat

text \<open>
  The \<open>async for\<close> loop of \<open>_handle_websocket_chat\<close>. \<open>Finished\<close> is a \<open>return\<close>
  inside the loop; \<open>Raised\<close> is an exception that leaves the loop for the handlers of
  the enclosing \<open>try\<close>.
\<close>

fun ws_loop :: "real \<Rightarrow> real \<Rightarrow> chunk list \<Rightarrow> ws_state \<Rightarrow> loop_exit \<times> ws_state" where
  "ws_loop started finished [] st = (Exhausted, st)"
| "ws_loop started finished (ch # rest) st =
     (let st1 = st\<lparr>ws_consumed := ws_consumed st + 1\<rparr> in
      case truthy_str (c_error ch) of
        Some err \<Rightarrow> (Finished, st1\<lparr>websocket := send_ws_error (websocket st1) err None\<rparr>)
      | None \<Rightarrow>
          (let token = token_from_chunk ch in
           case (if token \<noteq> []
                 then (case send_json (websocket st1) (TokenEvent token) of
                         Inl e \<Rightarrow> Inl e
                       | Inr ws \<Rightarrow> Inr (st1\<lparr>ws_collected := ws_collected st1 @ [token],
                                              websocket := ws\<rparr>))
                 else Inr st1) of
             Inl e \<Rightarrow> (Raised e, st1\<lparr>ws_collected := ws_collected st1 @ [token]\<rparr>)
           | Inr st2 \<Rightarrow>
               if c_done ch = Some True
               then
                 (let usage = usage_from_chunk ch;
                      usage' = usage\<lparr>total_tokens := prompt_tokens usage + completion_tokens usage\<rparr>;
                      latency_ms = latency_of started finished;
                      m = metrics_record (ws_metrics st2) (real_of_int latency_ms)
                            (prompt_tokens usage') (completion_tokens usage');
                      st3 = st2\<lparr>ws_metrics := m\<rparr>
                  in case send_json (websocket st3)
                            (DoneEvent (concat (ws_collected st3)) usage' latency_ms) of
                       Inl e \<Rightarrow> (Raised e, st3)
                     | Inr ws \<Rightarrow> (Finished, st3\<lparr>websocket := ws\<rparr>))
               else ws_loop started finished rest st2))"

text \<open>
  \<open>_handle_websocket_chat\<close>, given the backend stream that its call of
  \<open>stream_chat\<close> produces. An exception other than \<open>WebSocketDisconnect\<close> and
  \<open>OllamaServiceError\<close> reaches the last handler, which reports it as an error frame.
\<close>

fun exn_text :: "exn \<Rightarrow> string" where
  "exn_text (ValueError m) = m"
| "exn_text IndexError = ''list index out of range''"
| "exn_text (HTTPException code detail) = detail"
| "exn_text (WebSocketException code reason) = reason"
| "exn_text (OllamaServiceError m code) = m"
| "exn_text (ValidationError m) = m"
| "exn_text (RuntimeError m) = m"

definition unexpected_error :: "WebSocket \<Rightarrow> exn \<Rightarrow> WebSocket" where
  "unexpected_error ws e = send_ws_error ws (''Unexpected error: '' @ exn_text e) None"

definition handle_websocket_chat ::
  "real \<Rightarrow> real \<Rightarrow> backend_stream \<Rightarrow> WebSocket \<Rightarrow> MetricsCollector \<Rightarrow> ws_state" where
  "handle_websocket_chat started finished bs ws metrics =
     (case ws_loop started finished (chunks bs)
             \<lparr>ws_collected = [], websocket = ws, ws_metrics = metrics, ws_consumed = 0\<rparr> of
        (Finished, st) \<Rightarrow> st
      | (Raised e, st) \<Rightarrow> st\<lparr>websocket := unexpected_error (websocket st) e\<rparr>
      | (Exhausted, st) \<Rightarrow>
          (case failure bs of
             Some (msg, status_code) \<Rightarrow> st\<lparr>websocket := send_ws_error (websocket st) msg None\<rparr>
           | None \<Rightarrow>
               (let latency_ms = latency_of started finished;
                    m = metrics_record (ws_metrics st) (real_of_int latency_ms) 0 0;
                    st1 = st\<lparr>ws_metrics := m\<rparr>
                in case send_json (websocket st1)
                          (DoneEvent (concat (ws_collected st1)) UsageStats_default latency_ms) of
                     Inl e \<Rightarrow> st1\<lparr>websocket := unexpected_error (websocket st1) e\<rparr>
                   | Inr ws' \<Rightarrow> st1\<lparr>websocket := ws'\<rparr>)))"

subsection \<open>Notions used to state what the handlers do\<close>

text \<open>
  The loop of either handler goes on to the next chunk: no error indicator, no done
  marker.
\<close>

definition passes :: "chunk \<Rightarrow> bool" where
  "passes ch = (truthy_str (c_error ch) = None \<and> c_done ch \<noteq> Some True)"

text \<open>
  The tokens that a run of chunks contributes: the non-empty results of
  \<open>_token_from_chunk\<close>.
\<close>

definition tokens_of :: "chunk list \<Rightarrow> string list" where
  "tokens_of chs = filter (\<lambda>t. t \<noteq> []) (map token_from_chunk chs)"

text \<open>The state of the generator after a run of chunks that the loop passes.\<close>

definition sse_advance :: "chunk list \<Rightarrow> sse_state \<Rightarrow> sse_state" where
  "sse_advance pre st =
     st\<lparr>collected := collected st @ tokens_of pre,
        yielded := yielded st @ map TokenEvent (tokens_of pre),
        sse_consumed := sse_consumed st + length pre\<rparr>"

text \<open>The state of the WebSocket handler after a run of chunks that the loop passes.\<close>

definition ws_advance :: "chunk list \<Rightarrow> ws_state \<Rightarrow> ws_state" where
  "ws_advance pre st =
     st\<lparr>ws_collected := ws_collected st @ tokens_of pre,
        websocket := (websocket st)\<lparr>sent := sent (websocket st) @ map TokenEvent (tokens_of pre)\<rparr>,
        ws_consumed := ws_consumed st + length pre\<rparr>"



text \<open>The state in which the generator starts.\<close>

definition sse_start :: "MetricsCollector \<Rightarrow> sse_state" where
  "sse_start m = \<lparr>collected = [], yielded = [], sse_metrics = m, sse_consumed = 0\<rparr>"

text \<open>The state in which the WebSocket handler starts.\<close>

definition ws_start :: "WebSocket \<Rightarrow> MetricsCollector \<Rightarrow> ws_state" where
  "ws_start ws m = \<lparr>ws_collected = [], websocket = ws, ws_metrics = m, ws_consumed = 0\<rparr>"


text \<open>Chunks, a socket and events used in the examples.\<close>

definition empty_chunk :: chunk where
  "empty_chunk = \<lparr>c_error = None, c_response = None, c_message = None, c_done = None,
                   c_prompt_eval_count = None, c_eval_count = None\<rparr>"

definition hi_chunk :: chunk where
  "hi_chunk = empty_chunk\<lparr>c_response := Some ''Hi''\<rparr>"

definition done_chunk :: chunk where
  "done_chunk = empty_chunk\<lparr>c_message := Some (Some ''!''), c_done := Some True,
                             c_prompt_eval_count := Some 5, c_eval_count := Some 2\<rparr>"

definition error_chunk :: chunk where
  "error_chunk = empty_chunk\<lparr>c_error := Some ''boom''\<rparr>"

definition ws0 :: WebSocket where
  "ws0 = \<lparr>application_state = CONNECTED, sent = []\<rparr>"

fun is_error_event :: "event \<Rightarrow> bool" where
  "is_error_event (ErrorEvent m d) = True"
| "is_error_event e = False"

section \<open>config.py and deps.py\<close>

record Settings =
  default_model :: string
  api_key :: string
  api_key_optional :: bool
  rate_limit_rps :: real
  rate_limit_burst :: int

text \<open>What a dependency reads of a request or of a WebSocket handshake.\<close>

record Request =
  headers :: "string \<rightharpoonup> string"
  client_host :: "string option"

text \<open>
  The characters that \<open>str.strip()\<close> removes. A header value is decoded as Latin-1,
  one character per byte, so these are the code points below 256 for which
  \<open>str.isspace()\<close> holds: U+0009 to U+000D, U+001C to U+001F, the space, U+0085 and
  U+00A0.
\<close>

definition is_space :: "char \<Rightarrow> bool" where
  "is_space ch = (ch \<in> set [CHR '' '', CHR 0x09, CHR 0x0A, CHR 0x0B, CHR 0x0C, CHR 0x0D,
                              CHR 0x1C, CHR 0x1D, CHR 0x1E, CHR 0x1F, CHR 0x85, CHR 0xA0])"

definition py_strip :: "string \<Rightarrow> string" where
  "py_strip s = rev (dropWhile is_space (rev (dropWhile is_space s)))"

text \<open>\<open>_client_identifier_from_headers(headers, fallback)\<close>.\<close>

definition client_identifier_from_headers :: "(string \<rightharpoonup> string) \<Rightarrow> string option \<Rightarrow> string" where
  "client_identifier_from_headers hs fallback =
     (case truthy_str (hs ''x-forwarded-for'') of
        Some forwarded_for \<Rightarrow> py_strip (takeWhile (\<lambda>ch. ch \<noteq> CHR '','') forwarded_for)
      | None \<Rightarrow>
          (case truthy_str fallback of
             Some f \<Rightarrow> f
           | None \<Rightarrow> ''anonymous''))"

text \<open>\<open>get_rate_limiter()\<close>: built once from the settings.\<close>

definition get_rate_limiter :: "Settings \<Rightarrow> exn + RateLimiter" where
  "get_rate_limiter settings = RateLimiter_init (rate_limit_rps settings) (rate_limit_burst settings)"

text \<open>
  \<open>enforce_rate_limit(request, limiter)\<close>; \<open>now\<close> is the clock
  reading of \<open>allow\<close>.
\<close>

definition enforce_rate_limit :: "real \<Rightarrow> Request \<Rightarrow> RateLimiter \<Rightarrow> exn option \<times> RateLimiter" where
  "enforce_rate_limit now request limiter =
     (let client_id = client_identifier_from_headers (headers request) (client_host request)
      in case allow now client_id limiter of
           (allowed, limiter') \<Rightarrow>
             (if \<not> allowed then Some (HTTPException 429 ''Rate limit exceeded'') else None,
              limiter'))"


text \<open>
  \<open>verify_api_key(request, settings)\<close>; \<open>secrets.compare_digest\<close>
  is equality.
\<close>

definition verify_api_key :: "Settings \<Rightarrow> Request \<Rightarrow> exn option" where
  "verify_api_key settings request =
     (if api_key_optional settings then None
      else if api_key settings = [] then Some (HTTPException 500 ''API key not configured'')
      else case truthy_str (headers request ''x-api-key'') of
             None \<Rightarrow> Some (HTTPException 401 ''Invalid API key'')
           | Some provided \<Rightarrow>
               if provided \<noteq> api_key settings then Some (HTTPException 401 ''Invalid API key'')
               else None)"


section \<open>main.py: the routes\<close>

text \<open>
  The process-wide state: the limiter, the metrics collector, and a log of the requests
  made to the backend (streaming or not, model name, messages, options).
\<close>

record backend_call =
  call_stream :: bool
  call_model :: string
  call_messages :: "ChatMessage list"
  call_options :: "real option \<times> real option \<times> int option"

record App =
  limiter :: RateLimiter
  app_metrics :: MetricsCollector
  backend_calls :: "backend_call list"

text \<open>
  \<open>_build_options(payload)\<close>: the three parameters, those that are
  \<open>None\<close> left out.
\<close>

definition build_options :: "ChatRequest \<Rightarrow> real option \<times> real option \<times> int option" where
  "build_options payload = (temperature payload, top_p payload, seed payload)"

definition model_name_of :: "Settings \<Rightarrow> ChatRequest \<Rightarrow> string" where
  "model_name_of settings payload =
     (case truthy_str (model payload) of Some m \<Rightarrow> m | None \<Rightarrow> default_model settings)"

text \<open>
  The response of the backend to \<open>chat\<close>, typed as the backend sends it.
\<close>

record chat_reply =
  reply_message :: "string option option"
  reply_response :: "string option"
  reply_prompt_eval_count :: "int option"
  reply_eval_count :: "int option"
  reply_model :: "string option"
  reply_id :: "string option"

text \<open>\<open>_extract_content(response)\<close>.\<close>

definition extract_content :: "chat_reply \<Rightarrow> string" where
  "extract_content response =
     (case (case reply_message response of None \<Rightarrow> None | Some message \<Rightarrow> truthy_str message) of
        Some c \<Rightarrow> c
      | None \<Rightarrow> (case truthy_str (reply_response response) of Some r \<Rightarrow> r | None \<Rightarrow> []))"

record ChatResponse =
  resp_id :: string
  resp_model :: string
  resp_content :: string
  resp_usage :: UsageStats
  resp_latency_ms :: int

text \<open>
  What the environment supplies to one request: the clock readings, the stream that
  \<open>stream_chat\<close> would produce, the result that \<open>chat\<close> would give, and a fresh uuid.
\<close>

record chat_env =
  env_now :: real
  env_started :: real
  env_finished :: real
  env_stream :: backend_stream
  env_chat :: "exn + chat_reply"
  env_uuid :: string

datatype http_result =
    JsonResponse ChatResponse
  | StreamingResponse "event list" "exn option"
  | ErrorResponse exn

text \<open>
  \<open>chat_endpoint(payload)\<close>. A streaming response is given with the events its
  generator yields and the exception that ends it, if any.
\<close>

definition chat_endpoint :: "Settings \<Rightarrow> chat_env \<Rightarrow> ChatRequest \<Rightarrow> App \<Rightarrow> http_result \<times> App" where
  "chat_endpoint settings env payload app =
     (let model_name = model_name_of settings payload;
          msgs = messages payload;
          options = build_options payload;
          app1 = app\<lparr>backend_calls := backend_calls app @
                   [\<lparr>call_stream = stream payload, call_model = model_name,
                     call_messages = msgs, call_options = options\<rparr>]\<rparr>
      in if stream payload
         then (case sse_chat_generator (env_started env) (env_finished env) (env_stream env)
                      (app_metrics app1) of
                 (raised, st) \<Rightarrow>
                   (StreamingResponse (yielded st) raised, app1\<lparr>app_metrics := sse_metrics st\<rparr>))
         else (case env_chat env of
                 Inl (OllamaServiceError msg status_code) \<Rightarrow>
                   (ErrorResponse (HTTPException (map_status status_code) msg), app1)
               | Inl e \<Rightarrow> (ErrorResponse e, app1)
               | Inr response \<Rightarrow>
                   (let c = extract_content response;
                        p = (case reply_prompt_eval_count response of None \<Rightarrow> 0 | Some n \<Rightarrow> n);
                        q = (case reply_eval_count response of None \<Rightarrow> 0 | Some n \<Rightarrow> n);
                        usage = \<lparr>prompt_tokens = p, completion_tokens = q, total_tokens = p + q\<rparr>;
                        latency_ms = latency_of (env_started env) (env_finished env);
                        m = metrics_record (app_metrics app1) (real_of_int latency_ms) p q
                    in (JsonResponse
                          \<lparr>resp_id = (case truthy_str (reply_id response) of
                                         Some i \<Rightarrow> i | None \<Rightarrow> env_uuid env),
                           resp_model = (case truthy_str (reply_model response) of
                                           Some m' \<Rightarrow> m' | None \<Rightarrow> model_name),
                           resp_content = c, resp_usage = usage, resp_latency_ms = latency_ms\<rparr>,
                        app1\<lparr>app_metrics := m\<rparr>))))"

text \<open>
  \<open>POST /api/chat\<close> as the decorator declares it: the route has the dependencies
  \<open>verify_api_key\<close> and \<open>enforce_rate_limit\<close>, and the endpoint takes the body as a
  \<open>ChatRequest\<close>. The framework calls the dependencies in the order of the list, then
  validates the body, and calls the endpoint only when nothing has failed; an exception
  of a dependency ends the request at once.
\<close>

definition chat_route :: "Settings \<Rightarrow> chat_env \<Rightarrow> Request \<Rightarrow> ChatRequest \<Rightarrow> App \<Rightarrow> http_result \<times> App" where
  "chat_route settings env request body app =
     (case verify_api_key settings request of
        Some e \<Rightarrow> (ErrorResponse e, app)
      | None \<Rightarrow>
          (case enforce_rate_limit (env_now env) request (limiter app) of
             (Some e, limiter') \<Rightarrow> (ErrorResponse e, app\<lparr>limiter := limiter'\<rparr>)
           | (None, limiter') \<Rightarrow>
               (case ChatRequest_validate body of
                  Inl e \<Rightarrow> (ErrorResponse e, app\<lparr>limiter := limiter'\<rparr>)
                | Inr payload \<Rightarrow> chat_endpoint settings env payload (app\<lparr>limiter := limiter'\<rparr>))))"

text \<open>
  A message of a WebSocket client: the decoded object, with \<open>params\<close> fields that tell
  an absent key (\<open>None\<close>) from a key that is present.
\<close>

record ws_params =
  p_temperature :: "real option option"
  p_top_p :: "real option option"
  p_seed :: "int option option"

record ws_data =
  d_model :: "string option"
  d_messages :: "ChatMessage list option"
  d_temperature :: "real option"
  d_top_p :: "real option"
  d_seed :: "int option"
  d_params :: "ws_params option"



text \<open>
  One pass of the \<open>while True\<close> loop of \<open>websocket_chat\<close>: what \<open>receive_json\<close>
  gives (a decoded message, or an exception other than a disconnect), and what the
  environment supplies if the turn reaches the backend.
\<close>

datatype received = Invalid string | Data ws_data





subsection \<open>Notions used to state what the routes do\<close>

text \<open>
  The identity that the rate-limit dependencies derive from a request or a handshake.
\<close>

definition client_of :: "Request \<Rightarrow> string" where
  "client_of request = client_identifier_from_headers (headers request) (client_host request)"

text \<open>Settings, requests, states and messages used in the examples.\<close>

definition settings0 :: Settings where
  "settings0 = \<lparr>default_model = ''llama3'', api_key = [], api_key_optional = True,
                 rate_limit_rps = 3, rate_limit_burst = 6\<rparr>"

definition request0 :: Request where
  "request0 = \<lparr>headers = Map.empty, client_host = Some ''10.0.0.1''\<rparr>"

definition app0 :: App where
  "app0 = \<lparr>limiter = \<lparr>rate = 3, capacity = 6, buckets = Map.empty\<rparr>,
            app_metrics = MetricsCollector_init 512, backend_calls = []\<rparr>"

definition app_exhausted :: App where
  "app_exhausted =
     app0\<lparr>limiter := \<lparr>rate = 3, capacity = 6,
                        buckets = [''10.0.0.1'' \<mapsto> \<lparr>tokens = 0, timestamp = 0\<rparr>]\<rparr>\<rparr>"

definition env0 :: chat_env where
  "env0 = \<lparr>env_now = 0, env_started = 0, env_finished = 1 / 4,
            env_stream = \<lparr>chunks = [hi_chunk, done_chunk], failure = None\<rparr>,
            env_chat = Inl (OllamaServiceError ''down'' 503), env_uuid = ''u''\<rparr>"

definition empty_body :: ChatRequest where
  "empty_body = \<lparr>model = None, messages = [], stream = True, temperature = None,
                  top_p = None, seed = None\<rparr>"




definition settings_enforced :: Settings where
  "settings_enforced = settings0\<lparr>api_key := ''secret'', api_key_optional := False\<rparr>"


section \<open>Facts about the rate limiter\<close>

subsection \<open>Basic facts about one call\<close>

lemma allow_rate [simp]: "rate (snd (allow now c L)) = rate L"
  by (simp add: allow_def Let_def)

lemma allow_capacity [simp]: "capacity (snd (allow now c L)) = capacity L"
  by (simp add: allow_def Let_def)

lemma allow_other_bucket: "c' \<noteq> c \<Longrightarrow> buckets (snd (allow now c L)) c' = buckets L c'"
  by (simp add: allow_def Let_def)

lemma allow_seq_Cons:
  "allow_seq L ((now, c) # calls) =
     (fst (allow now c L) # fst (allow_seq (snd (allow now c L)) calls),
      snd (allow_seq (snd (allow now c L)) calls))"
  by (simp split: prod.splits)

lemma allow_seq_capacity [simp]: "capacity (snd (allow_seq L calls)) = capacity L"
proof (induction calls arbitrary: L)
  case Nil
  show ?case by simp
next
  case (Cons call calls)
  obtain now c where call: "call = (now, c)" by (cases call)
  have "capacity (snd (allow_seq (snd (allow now c L)) calls)) = capacity L"
    using Cons.IH [of "snd (allow now c L)"] by simp
  then show ?case using call by (simp only: allow_seq_Cons snd_conv)
qed

lemma allow_seq_rate [simp]: "rate (snd (allow_seq L calls)) = rate L"
proof (induction calls arbitrary: L)
  case Nil
  show ?case by simp
next
  case (Cons call calls)
  obtain now c where call: "call = (now, c)" by (cases call)
  have "rate (snd (allow_seq (snd (allow now c L)) calls)) = rate L"
    using Cons.IH [of "snd (allow now c L)"] by simp
  then show ?case using call by (simp only: allow_seq_Cons snd_conv)
qed

lemma allow_seq_append:
  "allow_seq L (xs @ ys) =
     (fst (allow_seq L xs) @ fst (allow_seq (snd (allow_seq L xs)) ys),
      snd (allow_seq (snd (allow_seq L xs)) ys))"
proof (induction xs arbitrary: L)
  case Nil
  show ?case by simp
next
  case (Cons call xs)
  obtain now c where call: "call = (now, c)" by (cases call)
  show ?case using Cons.IH [of "snd (allow now c L)"] call
    by (simp add: allow_seq_Cons del: allow_seq.simps)
qed

lemma init_Inr:
  "RateLimiter_init r burst = Inr L \<longleftrightarrow>
     0 < r \<and> 0 < burst \<and> L = \<lparr>rate = r, capacity = real_of_int burst, buckets = Map.empty\<rparr>"
  by (auto simp: RateLimiter_init_def)

subsection \<open>The stored tokens stay within the capacity\<close>

lemma allow_within:
  assumes "0 \<le> rate L" "0 \<le> capacity L" "buckets_within L"
  shows "buckets_within (snd (allow now c L))"
proof -
  define b where "b = (case buckets L c of
      None \<Rightarrow> \<lparr>tokens = capacity L, timestamp = now\<rparr> | Some b0 \<Rightarrow> b0)"
  define refilled where "refilled = min (capacity L) (tokens b + max 0 (now - timestamp b) * rate L)"
  have b: "0 \<le> tokens b" "tokens b \<le> capacity L"
    using assms by (auto simp: b_def buckets_within_def split: option.splits)
  have "0 \<le> max 0 (now - timestamp b) * rate L" using assms(1) by simp
  then have r: "0 \<le> refilled" "refilled \<le> capacity L"
    using b assms(2) by (auto simp: refilled_def)
  have st: "snd (allow now c L) = L\<lparr>buckets := (buckets L)(c \<mapsto>
      \<lparr>tokens = (if refilled < 1 then refilled else refilled - 1), timestamp = now\<rparr>)\<rparr>"
    by (simp add: allow_def Let_def b_def refilled_def)
  show ?thesis unfolding st using r assms(3)
    by (auto simp: buckets_within_def)
qed

lemma allow_seq_within:
  assumes "0 \<le> rate L" "0 \<le> capacity L" "buckets_within L"
  shows "buckets_within (snd (allow_seq L calls))"
  using assms
proof (induction calls arbitrary: L)
  case Nil
  then show ?case by simp
next
  case (Cons call calls)
  obtain now c where call: "call = (now, c)" by (cases call)
  have "buckets_within (snd (allow_seq (snd (allow now c L)) calls))"
    using Cons.prems by (intro Cons.IH allow_within) simp_all
  then show ?case using call by (simp only: allow_seq_Cons snd_conv)
qed

text \<open>
  Claim C8. A limiter that the constructor accepted (\<open>rate > 0\<close>, \<open>burst > 0\<close>) keeps
  every bucket between 0 and its capacity, after any finite sequence of \<open>allow\<close> calls.
  The clamp \<open>max(0.0, now - timestamp)\<close> makes this hold for any clock readings, so in
  particular for non-decreasing ones.
\<close>

theorem tokens_within_capacity:
  assumes "RateLimiter_init r burst = Inr L"
    and "buckets (snd (allow_seq L calls)) c = Some b"
  shows "0 \<le> tokens b \<and> tokens b \<le> capacity L"
proof -
  have L: "0 \<le> rate L" "0 \<le> capacity L" "buckets_within L"
    using assms(1) by (auto simp: init_Inr buckets_within_def)
  have "buckets_within (snd (allow_seq L calls))" by (rule allow_seq_within [OF L])
  then show ?thesis using assms(2) by (simp add: buckets_within_def)
qed

theorem tokens_within_capacity_witness:
  "RateLimiter_init 3 6 = Inr \<lparr>rate = 3, capacity = 6, buckets = Map.empty\<rparr>
   \<and> buckets (snd (allow_seq \<lparr>rate = 3, capacity = 6, buckets = Map.empty\<rparr>
        [(0, ''a''), (0, ''b''), (1 / 2, ''a'')])) ''a'' = Some \<lparr>tokens = 5, timestamp = 1 / 2\<rparr>
   \<and> 0 \<le> tokens \<lparr>tokens = 5, timestamp = 1 / 2\<rparr>
   \<and> tokens \<lparr>tokens = 5, timestamp = 1 / 2\<rparr>
        \<le> capacity \<lparr>rate = 3, capacity = 6, buckets = Map.empty\<rparr>"
proof -
  have i: "RateLimiter_init 3 6 = Inr \<lparr>rate = 3, capacity = 6, buckets = Map.empty\<rparr>"
    by (simp add: RateLimiter_init_def)
  have b: "buckets (snd (allow_seq \<lparr>rate = 3, capacity = 6, buckets = Map.empty\<rparr>
        [(0, ''a''), (0, ''b''), (1 / 2, ''a'')])) ''a'' = Some \<lparr>tokens = 5, timestamp = 1 / 2\<rparr>"
    by (simp add: allow_def Let_def)
  show ?thesis using tokens_within_capacity [OF i b] i b by blast
qed

subsection \<open>The first call of a client\<close>

text \<open>
  Claim C10. In any state that a limiter built with \<open>rate > 0\<close> and an integer
  \<open>burst \<ge> 1\<close> reaches, the first \<open>allow\<close> call of a client that has no bucket
  returns true: the new bucket is initialised with \<open>capacity = burst \<ge> 1\<close> tokens and the
  reading of the call, the refill leaves it at the capacity, and the call takes one token
  from it. So the call stores, for that client, the bucket with \<open>capacity - 1\<close> tokens
  and the reading of the call, and leaves every other bucket as it was.
\<close>

theorem first_call_admitted:
  assumes "RateLimiter_init r burst = Inr L"
    and "buckets (snd (allow_seq L calls)) c = None"
  shows "fst (allow now c (snd (allow_seq L calls))) = True
       \<and> capacity (snd (allow_seq L calls)) = real_of_int burst
       \<and> 1 \<le> real_of_int burst
       \<and> min (capacity (snd (allow_seq L calls)))
            (tokens \<lparr>tokens = capacity (snd (allow_seq L calls)), timestamp = now\<rparr>
             + max 0 (now - timestamp \<lparr>tokens = capacity (snd (allow_seq L calls)), timestamp = now\<rparr>)
               * rate (snd (allow_seq L calls)))
          = real_of_int burst
       \<and> buckets (snd (allow now c (snd (allow_seq L calls)))) c
          = Some \<lparr>tokens = real_of_int burst - 1, timestamp = now\<rparr>
       \<and> snd (allow now c (snd (allow_seq L calls)))
          = (snd (allow_seq L calls))\<lparr>buckets := (buckets (snd (allow_seq L calls)))(c \<mapsto>
               \<lparr>tokens = real_of_int burst - 1, timestamp = now\<rparr>)\<rparr>"
proof -
  have c: "capacity L = real_of_int burst"
    using assms(1) by (auto simp: init_Inr)
  have b: "1 \<le> real_of_int burst" using assms(1) by (auto simp: init_Inr)
  show ?thesis using assms(2) b by (simp add: allow_def Let_def c)
qed

theorem first_call_admitted_witness:
  "RateLimiter_init 3 6 = Inr \<lparr>rate = 3, capacity = 6, buckets = Map.empty\<rparr>
   \<and> buckets (snd (allow_seq \<lparr>rate = 3, capacity = 6, buckets = Map.empty\<rparr> [(0, ''a'')])) ''b'' = None
   \<and> fst (allow 5 ''b'' (snd (allow_seq \<lparr>rate = 3, capacity = 6, buckets = Map.empty\<rparr> [(0, ''a'')])))
       = True
   \<and> buckets (snd (allow 5 ''b''
         (snd (allow_seq \<lparr>rate = 3, capacity = 6, buckets = Map.empty\<rparr> [(0, ''a'')])))) ''b''
       = Some \<lparr>tokens = 5, timestamp = 5\<rparr>"
proof -
  have i: "RateLimiter_init 3 6 = Inr \<lparr>rate = 3, capacity = 6, buckets = Map.empty\<rparr>"
    by (simp add: RateLimiter_init_def)
  have b: "buckets (snd (allow_seq \<lparr>rate = 3, capacity = 6, buckets = Map.empty\<rparr> [(0, ''a'')])) ''b'' = None"
    by (simp add: allow_def Let_def)
  show ?thesis using first_call_admitted [OF i b, of 5] i b by simp
qed

subsection \<open>Buckets of different clients do not interfere\<close>

lemma allow_agree_same:
  assumes "agree_on B L1 L2"
  shows "fst (allow now B L1) = fst (allow now B L2)"
    and "agree_on B (snd (allow now B L1)) (snd (allow now B L2))"
  using assms by (auto simp add: agree_on_def allow_def Let_def split: option.splits)

lemma allow_agree_other:
  assumes "c \<noteq> B" "agree_on B L1 L2"
  shows "agree_on B (snd (allow now c L1)) L2"
  using assms by (simp add: agree_on_def allow_other_bucket)

lemma results_of_Nil: "results_of B L [] = []"
  by (simp add: results_of_def)

lemma results_of_Cons:
  "results_of B L ((now, c) # calls) =
     (if c = B then [fst (allow now c L)] else []) @ results_of B (snd (allow now c L)) calls"
  by (simp add: results_of_def allow_seq_Cons del: allow_seq.simps)

lemma results_of_agree:
  assumes "A \<noteq> B" "agree_on B L1 L2"
  shows "results_of B L1 calls = results_of B L2 (filter (\<lambda>call. snd call \<noteq> A) calls)"
  using assms(2)
proof (induction calls arbitrary: L1 L2)
  case Nil
  show ?case by (simp add: results_of_Nil)
next
  case (Cons call calls)
  obtain now c where call: "call = (now, c)" by (cases call)
  show ?case
  proof (cases "c = A")
    case True
    then have "agree_on B (snd (allow now c L1)) L2"
      using assms(1) Cons.prems by (intro allow_agree_other) auto
    from Cons.IH [OF this] show ?thesis
      using True assms(1) call by (simp add: results_of_Cons)
  next
    case False
    show ?thesis
    proof (cases "c = B")
      case True
      have "agree_on B (snd (allow now B L1)) (snd (allow now B L2))"
        by (rule allow_agree_same(2) [OF Cons.prems])
      from Cons.IH [OF this] show ?thesis
        using True False call allow_agree_same(1) [OF Cons.prems, of now]
        by (simp add: results_of_Cons)
    next
      case notB: False
      have 1: "agree_on B (snd (allow now c L1)) L2"
        using notB Cons.prems by (intro allow_agree_other) auto
      have "agree_on B L2 (snd (allow now c L2))"
        using notB by (simp add: agree_on_def allow_other_bucket)
      with 1 have "agree_on B (snd (allow now c L1)) (snd (allow now c L2))"
        by (simp add: agree_on_def)
      from Cons.IH [OF this] show ?thesis
        using False notB call by (simp add: results_of_Cons)
    qed
  qed
qed

text \<open>
  Claim C7. For two distinct clients \<open>A\<close> and \<open>B\<close>, any limiter state and any
  interleaving of \<open>allow\<close> calls (of any clients, at any clock readings), the results
  that the calls of \<open>B\<close> receive are the results they receive in the run from which
  every call of \<open>A\<close> has been removed: how often \<open>A\<close> called, and whether its bucket
  was exhausted, does not change any admission result of \<open>B\<close>.
\<close>

theorem bucket_isolation:
  assumes "A \<noteq> B"
  shows "results_of B L calls = results_of B L (filter (\<lambda>call. snd call \<noteq> A) calls)"
  by (rule results_of_agree [OF assms]) (simp add: agree_on_def)

theorem bucket_isolation_witness:
  "''a'' \<noteq> ''b'' \<and>
   results_of ''b'' \<lparr>rate = 3, capacity = 6, buckets = Map.empty\<rparr>
     [(0, ''a''), (0, ''a''), (0, ''a''), (0, ''a''), (0, ''a''), (0, ''a''), (0, ''a''),
      (0, ''b'')] =
   results_of ''b'' \<lparr>rate = 3, capacity = 6, buckets = Map.empty\<rparr> [(0, ''b'')]
   \<and> results_of ''b'' \<lparr>rate = 3, capacity = 6, buckets = Map.empty\<rparr> [(0, ''b'')] = [True]"
  using bucket_isolation [of "''a''" "''b''" "\<lparr>rate = 3, capacity = 6, buckets = Map.empty\<rparr>"
     "[(0, ''a''), (0, ''a''), (0, ''a''), (0, ''a''), (0, ''a''), (0, ''a''), (0, ''a''),
       (0, ''b'')]"]
  by (simp add: results_of_def allow_def Let_def)

subsection \<open>Rounding to double precision\<close>

lemma round_half_even_of_int [simp]: "round_half_even (real_of_int n) = n"
  by (simp add: round_half_even_def)

lemma round_half_even_floor: "\<lfloor>x\<rfloor> \<le> round_half_even x" "round_half_even x \<le> \<lfloor>x\<rfloor> + 1"
  by (simp_all add: round_half_even_def Let_def)

lemma round_half_even_lower:
  assumes "real_of_int a \<le> x"
  shows "a \<le> round_half_even x"
proof -
  have "a \<le> \<lfloor>x\<rfloor>" using assms by (simp add: le_floor_iff)
  then show ?thesis using round_half_even_floor(1) [of x] by linarith
qed

lemma round_half_even_upper:
  assumes "x \<le> real_of_int b"
  shows "round_half_even x \<le> b"
proof (cases "x = real_of_int b")
  case True
  then show ?thesis by simp
next
  case False
  then have "x < real_of_int b" using assms by simp
  then have "\<lfloor>x\<rfloor> < b" by (simp add: floor_less_iff)
  then have "\<lfloor>x\<rfloor> + 1 \<le> b" by simp
  moreover have "round_half_even x \<le> \<lfloor>x\<rfloor> + 1"
    by (simp add: round_half_even_def Let_def)
  ultimately show ?thesis by linarith
qed

lemma round_half_even_mono:
  assumes "x \<le> y"
  shows "round_half_even x \<le> round_half_even y"
proof (cases "\<lfloor>x\<rfloor> = \<lfloor>y\<rfloor>")
  case True
  have "x - real_of_int \<lfloor>x\<rfloor> \<le> y - real_of_int \<lfloor>x\<rfloor>" using assms by simp
  then show ?thesis
    using True by (auto simp: round_half_even_def Let_def)
next
  case False
  have "\<lfloor>x\<rfloor> \<le> \<lfloor>y\<rfloor>" using assms by (rule floor_mono)
  then have "\<lfloor>x\<rfloor> + 1 \<le> \<lfloor>y\<rfloor>" using False by simp
  then show ?thesis
    using round_half_even_floor(2) [of x] round_half_even_floor(1) [of y] by linarith
qed

lemma two_powr_int: "(2::real) powr real_of_int k = 2 powi k"
  by (rule powr_real_of_int') simp_all

lemma two_powi_pos [simp]: "0 < (2::real) powi k"
  by (rule zero_less_power_int) simp

lemma binade_bounds:
  assumes "x \<noteq> 0"
  shows "2 powi binade x \<le> \<bar>x\<bar>" and "\<bar>x\<bar> < 2 powi (binade x + 1)"
proof -
  have p: "0 < \<bar>x\<bar>" using assms by simp
  have "\<lfloor>log 2 \<bar>x\<bar>\<rfloor> = binade x" by (simp add: binade_def)
  then have "(2::real) powr real_of_int (binade x) \<le> \<bar>x\<bar>
      \<and> \<bar>x\<bar> < 2 powr (real_of_int (binade x) + 1)"
    using floor_log_eq_powr_iff [of "\<bar>x\<bar>" 2 "binade x"] p by simp
  then have a: "(2::real) powr real_of_int (binade x) \<le> \<bar>x\<bar>"
    and b: "\<bar>x\<bar> < 2 powr real_of_int (binade x + 1)" by simp_all
  show "2 powi binade x \<le> \<bar>x\<bar>" using a unfolding two_powr_int .
  show "\<bar>x\<bar> < 2 powi (binade x + 1)" using b unfolding two_powr_int .
qed

lemma binade_eq:
  assumes "2 powi k \<le> \<bar>x\<bar>" "\<bar>x\<bar> < 2 powi (k + 1)"
  shows "binade x = k"
proof -
  have "0 < (2::real) powi k" by simp
  then have p: "0 < \<bar>x\<bar>" using assms(1) by linarith
  have a: "(2::real) powr real_of_int k \<le> \<bar>x\<bar>" using assms(1) unfolding two_powr_int .
  have "\<bar>x\<bar> < 2 powr real_of_int (k + 1)" using assms(2) unfolding two_powr_int .
  then have b: "\<bar>x\<bar> < 2 powr (real_of_int k + 1)" by simp
  show ?thesis
    using floor_log_eq_powr_iff [of "\<bar>x\<bar>" 2 k] p a b by (simp add: binade_def)
qed

lemma binade_less:
  assumes "x \<noteq> 0" "\<bar>x\<bar> < 2 powi j"
  shows "binade x < j"
proof (rule ccontr)
  assume "\<not> binade x < j"
  then have "j \<le> binade x" by simp
  then have "(2::real) powi j \<le> 2 powi binade x" by (intro power_int_increasing) simp_all
  then show False using binade_bounds(1) [OF assms(1)] assms(2) by linarith
qed

lemma binade_ge:
  assumes "2 powi j \<le> \<bar>x\<bar>"
  shows "j \<le> binade x"
proof (rule ccontr)
  assume "\<not> j \<le> binade x"
  then have "binade x + 1 \<le> j" by simp
  then have le: "(2::real) powi (binade x + 1) \<le> 2 powi j"
    by (intro power_int_increasing) simp_all
  have "0 < \<bar>x\<bar>" using two_powi_pos [of j] assms by linarith
  then have "x \<noteq> 0" by simp
  then show False using binade_bounds(2) [of x] assms le by linarith
qed

lemma fl_zero [simp]: "fl 0 = 0"
  by (simp add: fl_def)

lemma scaled_back: "x / 2 powi u * 2 powi u = (x::real)"
  by simp

lemma two_powi_diff: "(2::real) powi k / 2 powi u = 2 powi (k - u)"
  by (simp add: power_int_diff)

lemma two_powi_nat: "0 \<le> d \<Longrightarrow> (2::real) powi d = real_of_int (2 ^ nat d)"
  by (simp add: power_int_nonneg_exp)

lemma fl_exact:
  assumes x: "x = real_of_int m * 2 powi k" and m: "\<bar>m\<bar> < 2 ^ 53" and k: "- 1074 \<le> k"
  shows "fl x = x"
proof (cases "x = 0")
  case True
  then show ?thesis by simp
next
  case False
  define u where "u = ulp_exponent x"
  have "\<bar>x\<bar> = real_of_int \<bar>m\<bar> * 2 powi k"
    by (simp add: x abs_mult)
  also have "\<dots> < real_of_int (2 ^ 53) * 2 powi k"
    using m by (intro mult_strict_right_mono) simp_all
  also have "\<dots> = 2 powi (53 + k)"
    by (simp add: power_int_add)
  finally have "binade x < 53 + k" using False by (intro binade_less)
  then have uk: "u \<le> k" using k by (simp add: u_def ulp_exponent_def)
  have "x / 2 powi u = real_of_int m * (2 powi k / 2 powi u)" by (simp add: x)
  also have "\<dots> = real_of_int m * 2 powi (k - u)" by (simp only: two_powi_diff)
  also have "\<dots> = real_of_int (m * 2 ^ nat (k - u))"
    using uk by (simp add: two_powi_nat)
  finally have q: "x / 2 powi u = real_of_int (m * 2 ^ nat (k - u))" .
  have "fl x = real_of_int (round_half_even (x / 2 powi u)) * 2 powi u"
    using False by (simp add: fl_def u_def)
  also have "\<dots> = x / 2 powi u * 2 powi u"
    by (simp only: q round_half_even_of_int)
  also have "\<dots> = x" by (rule scaled_back)
  finally show ?thesis .
qed

lemma fl_int: "\<bar>m\<bar> < 2 ^ 53 \<Longrightarrow> fl (real_of_int m) = real_of_int m"
  using fl_exact [of "real_of_int m" m 0] by simp

lemma fl_nonpos:
  assumes "y \<le> 0"
  shows "fl y \<le> 0"
proof (cases "y = 0")
  case True
  then show ?thesis by simp
next
  case False
  have "y / 2 powi ulp_exponent y \<le> real_of_int 0"
    using assms by (simp add: divide_nonpos_pos)
  then have "round_half_even (y / 2 powi ulp_exponent y) \<le> 0"
    by (rule round_half_even_upper)
  then have "real_of_int (round_half_even (y / 2 powi ulp_exponent y)) * 2 powi ulp_exponent y \<le> 0"
    by (intro mult_nonpos_nonneg) simp_all
  then show ?thesis using False by (simp add: fl_def)
qed

lemma fl_nonneg:
  assumes "0 \<le> y"
  shows "0 \<le> fl y"
proof (cases "y = 0")
  case True
  then show ?thesis by simp
next
  case False
  have "real_of_int 0 \<le> y / 2 powi ulp_exponent y"
    using assms by simp
  then have "0 \<le> round_half_even (y / 2 powi ulp_exponent y)"
    by (rule round_half_even_lower)
  then have "0 \<le> real_of_int (round_half_even (y / 2 powi ulp_exponent y)) * 2 powi ulp_exponent y"
    by (intro mult_nonneg_nonneg) simp_all
  then show ?thesis using False by (simp add: fl_def)
qed

lemma fl_le_pow2:
  assumes j: "- 1022 \<le> j" and y: "y \<le> 2 powi j"
  shows "fl y \<le> 2 powi j"
proof (cases "y \<le> 0")
  case True
  have "0 \<le> (2::real) powi j" by simp
  then show ?thesis using fl_nonpos [OF True] by linarith
next
  case False
  then have pos: "0 < y" and nz: "y \<noteq> 0" by simp_all
  define u where "u = ulp_exponent y"
  have "binade y \<le> j"
  proof (cases "y = 2 powi j")
    case True
    have "binade y = j"
      by (rule binade_eq) (simp_all add: True power_int_add)
    then show ?thesis by simp
  next
    case False
    then have "\<bar>y\<bar> < 2 powi j" using y pos by simp
    then have "binade y < j" by (rule binade_less [OF nz])
    then show ?thesis by simp
  qed
  then have uj: "u \<le> j - 52" using j by (simp add: u_def ulp_exponent_def)
  have "y / 2 powi u \<le> 2 powi j / 2 powi u"
    using y by (intro divide_right_mono) simp_all
  also have "\<dots> = 2 powi (j - u)" by (simp only: two_powi_diff)
  also have "\<dots> = real_of_int (2 ^ nat (j - u))" using uj by (intro two_powi_nat) simp
  finally have "round_half_even (y / 2 powi u) \<le> 2 ^ nat (j - u)"
    by (rule round_half_even_upper)
  then have "real_of_int (round_half_even (y / 2 powi u)) \<le> real_of_int (2 ^ nat (j - u))"
    by (simp only: of_int_le_iff)
  then have "real_of_int (round_half_even (y / 2 powi u)) * 2 powi u
      \<le> real_of_int (2 ^ nat (j - u)) * 2 powi u"
    by (intro mult_right_mono) simp_all
  also have "real_of_int (2 ^ nat (j - u)) = 2 powi (j - u)"
    using uj by (intro two_powi_nat [symmetric]) simp
  also have "2 powi (j - u) * 2 powi u = (2::real) powi j"
    by (simp flip: power_int_add)
  finally show ?thesis using nz by (simp add: fl_def u_def)
qed

lemma fl_ge_binade:
  assumes pos: "0 < y" and b: "- 1022 \<le> binade y"
  shows "2 powi binade y \<le> fl y"
proof -
  define u where "u = ulp_exponent y"
  have nz: "y \<noteq> 0" using pos by simp
  have u: "u = binade y - 52" using b by (simp add: u_def ulp_exponent_def)
  have "2 powi binade y \<le> y" using binade_bounds(1) [OF nz] pos by simp
  then have "2 powi binade y / 2 powi u \<le> y / 2 powi u"
    by (intro divide_right_mono) simp_all
  moreover have "2 powi binade y / 2 powi u = real_of_int (2 ^ 52)"
    by (simp add: two_powi_diff u)
  ultimately have "real_of_int (2 ^ 52) \<le> y / 2 powi u" by simp
  then have "2 ^ 52 \<le> round_half_even (y / 2 powi u)"
    by (rule round_half_even_lower)
  then have "real_of_int (2 ^ 52) \<le> real_of_int (round_half_even (y / 2 powi u))"
    by (simp only: of_int_le_iff)
  then have A: "real_of_int (2 ^ 52) * 2 powi u
      \<le> real_of_int (round_half_even (y / 2 powi u)) * 2 powi u"
    by (intro mult_right_mono) simp_all
  have B: "real_of_int (2 ^ 52) * 2 powi u = 2 powi binade y"
    by (simp add: u power_int_diff)
  have C: "fl y = real_of_int (round_half_even (y / 2 powi u)) * 2 powi u"
    using nz by (simp add: fl_def u_def)
  show ?thesis using A unfolding B C [symmetric] .
qed

lemma fl_ge_pow2:
  assumes j: "- 1022 \<le> j" and y: "2 powi j \<le> y"
  shows "2 powi j \<le> fl y"
proof -
  have pos: "0 < y" using y two_powi_pos [of j] by linarith
  have "2 powi j \<le> \<bar>y\<bar>" using y pos by simp
  then have jb: "j \<le> binade y" by (rule binade_ge)
  then have "(2::real) powi j \<le> 2 powi binade y"
    by (intro power_int_increasing) simp_all
  moreover have "2 powi binade y \<le> fl y"
    using pos jb j by (intro fl_ge_binade) simp_all
  ultimately show ?thesis by linarith
qed

lemma fl_eq_scaled:
  "y \<noteq> 0 \<Longrightarrow> fl y = real_of_int (round_half_even (y / 2 powi ulp_exponent y)) * 2 powi ulp_exponent y"
  by (simp add: fl_def)

lemma fl_eval:
  assumes "y \<noteq> 0" "ulp_exponent y = u" "round_half_even (y / 2 powi u) = n"
  shows "fl y = real_of_int n * 2 powi u"
  using assms by (simp add: fl_def)

lemma binade_mono:
  assumes "0 < x" "x \<le> y"
  shows "binade x \<le> binade y"
proof -
  have "2 powi binade x \<le> \<bar>x\<bar>" using assms(1) by (intro binade_bounds(1)) simp
  then have "2 powi binade x \<le> \<bar>y\<bar>" using assms by simp
  then show ?thesis by (rule binade_ge)
qed

lemma fl_mono_pos:
  assumes "0 < x" "x \<le> y"
  shows "fl x \<le> fl y"
proof (cases "ulp_exponent x = ulp_exponent y")
  case True
  have nz: "x \<noteq> 0" "y \<noteq> 0" using assms by simp_all
  have "x / 2 powi ulp_exponent y \<le> y / 2 powi ulp_exponent y"
    using assms(2) by (intro divide_right_mono) simp_all
  then have "round_half_even (x / 2 powi ulp_exponent y) \<le> round_half_even (y / 2 powi ulp_exponent y)"
    by (rule round_half_even_mono)
  then have "real_of_int (round_half_even (x / 2 powi ulp_exponent y))
      \<le> real_of_int (round_half_even (y / 2 powi ulp_exponent y))"
    by (simp only: of_int_le_iff)
  then have "real_of_int (round_half_even (x / 2 powi ulp_exponent y)) * 2 powi ulp_exponent y
      \<le> real_of_int (round_half_even (y / 2 powi ulp_exponent y)) * 2 powi ulp_exponent y"
    by (intro mult_right_mono) simp_all
  then show ?thesis
    unfolding fl_eq_scaled [OF nz(1)] fl_eq_scaled [OF nz(2)] True .
next
  case False
  have le: "binade x \<le> binade y" by (rule binade_mono [OF assms])
  have b: "- 1022 < binade y \<and> binade x < binade y"
    using False le by (auto simp: ulp_exponent_def max_def split: if_splits)
  have nz: "x \<noteq> 0" "y \<noteq> 0" using assms by simp_all
  have "\<bar>x\<bar> < 2 powi (binade x + 1)" by (rule binade_bounds(2) [OF nz(1)])
  moreover have "(2::real) powi (binade x + 1) \<le> 2 powi binade y"
    using b by (intro power_int_increasing) simp_all
  ultimately have "x \<le> 2 powi binade y" using assms(1) by simp
  then have 1: "fl x \<le> 2 powi binade y" using b by (intro fl_le_pow2) simp_all
  have "2 powi binade y \<le> \<bar>y\<bar>" by (rule binade_bounds(1) [OF nz(2)])
  then have "2 powi binade y \<le> y" using assms by simp
  then have 2: "2 powi binade y \<le> fl y" using b by (intro fl_ge_pow2) simp_all
  show ?thesis using 1 2 by linarith
qed

lemma fl_mono_nonneg:
  assumes "0 \<le> x" "x \<le> y"
  shows "fl x \<le> fl y"
proof (cases "x = 0")
  case True
  then show ?thesis using fl_nonneg [of y] assms by simp
next
  case False
  then show ?thesis using assms by (intro fl_mono_pos) simp_all
qed

lemma fl_unit:
  assumes "1 \<le> fl y" "fl y < 2"
  obtains m where "fl y = real_of_int m * 2 powi (- 52)" "2 ^ 52 \<le> m" "m < 2 ^ 53"
proof -
  have pos: "0 < y"
  proof (rule ccontr)
    assume "\<not> 0 < y"
    then have "fl y \<le> 0" by (intro fl_nonpos) simp
    then show False using assms(1) by simp
  qed
  have nz: "y \<noteq> 0" using pos by simp
  have lo: "2 powi (- 1) < y"
  proof (rule ccontr)
    assume "\<not> 2 powi (- 1) < y"
    then have "y \<le> 2 powi (- 1)" by simp
    then have "fl y \<le> 2 powi (- 1)" by (intro fl_le_pow2) simp_all
    then show False using assms(1) by simp
  qed
  have hi: "y < 2 powi 1"
  proof (rule ccontr)
    assume "\<not> y < 2 powi 1"
    then have "2 powi 1 \<le> y" by simp
    then have "2 powi 1 \<le> fl y" by (intro fl_ge_pow2) simp_all
    then show False using assms(2) by simp
  qed
  have "- 1 \<le> binade y" using lo pos by (intro binade_ge) simp
  moreover have "binade y < 1" using hi pos by (intro binade_less [OF nz]) simp
  ultimately consider "binade y = 0" | "binade y = - 1" by linarith
  then show ?thesis
  proof cases
    case 1
    define n where "n = round_half_even (y / 2 powi (- 52))"
    have f: "fl y = real_of_int n * 2 powi (- 52)"
      using nz 1 by (simp add: fl_def ulp_exponent_def n_def)
    have "real_of_int (2 ^ 52) \<le> real_of_int n"
      using assms(1) unfolding f by (simp add: power_int_minus field_simps)
    then have a: "2 ^ 52 \<le> n" by (simp only: of_int_le_iff)
    have "real_of_int n < real_of_int (2 ^ 53)"
      using assms(2) unfolding f by (simp add: power_int_minus field_simps)
    then have b: "n < 2 ^ 53" by (simp only: of_int_less_iff)
    show ?thesis using f a b by (rule that)
  next
    case 2
    have "y \<le> 2 powi 0" using binade_bounds(2) [OF nz] pos 2 by simp
    then have "fl y \<le> 2 powi 0" by (intro fl_le_pow2) simp_all
    then have "fl y = 1" using assms(1) by simp
    then have "fl y = real_of_int (2 ^ 52) * 2 powi (- 52)"
      by (simp add: power_int_minus)
    then show ?thesis by (rule that) simp_all
  qed
qed

lemma fl_unit_minus_one:
  assumes "1 \<le> fl y" "fl y < 2"
  shows "fl (fl y - 1) = fl y - 1" and "fl (fl (fl y - 1)) = fl y - 1"
proof -
  obtain m where m: "fl y = real_of_int m * 2 powi (- 52)" "2 ^ 52 \<le> m" "m < 2 ^ 53"
    using assms by (rule fl_unit)
  have e: "fl y - 1 = real_of_int (m - 2 ^ 52) * 2 powi (- 52)"
    by (simp add: m(1) power_int_minus field_simps)
  have a: "\<bar>m - 2 ^ 52\<bar> < 2 ^ 53" using m(2,3) by simp
  show 1: "fl (fl y - 1) = fl y - 1" by (rule fl_exact [OF e a]) simp
  show "fl (fl (fl y - 1)) = fl y - 1" by (simp only: 1)
qed

lemma fl_third: "fl (1 / 3) = third_double"
proof -
  have b: "binade (1 / 3) = - 2"
    by (rule binade_eq) (simp_all add: power_int_minus)
  have u: "ulp_exponent (1 / 3) = - 54" by (simp add: ulp_exponent_def b)
  have q: "(1 / 3 :: real) / 2 powi (- 54) = 18014398509481984 / 3"
    by (simp add: power_int_minus)
  have r: "round_half_even (18014398509481984 / 3) = 6004799503160661"
    by (simp add: round_half_even_def Let_def)
  have n: "round_half_even ((1 / 3) / 2 powi (- 54)) = 6004799503160661"
    unfolding q by (rule r)
  have "fl (1 / 3) = real_of_int 6004799503160661 * 2 powi (- 54)"
    by (rule fl_eval [OF _ u n]) simp
  then show ?thesis by (simp add: third_double_def)
qed

lemma fl_three_thirds: "fl (third_double * 3) = 1"
proof -
  have v: "third_double * 3 = 18014398509481983 / 18014398509481984"
    by (simp add: third_double_def power_int_minus)
  have b: "binade (18014398509481983 / 18014398509481984) = - 1"
    by (rule binade_eq) (simp_all add: power_int_minus)
  have u: "ulp_exponent (18014398509481983 / 18014398509481984) = - 53"
    by (simp add: ulp_exponent_def b)
  have q: "(18014398509481983 / 18014398509481984 :: real) / 2 powi (- 53) = 18014398509481983 / 2"
    by (simp add: power_int_minus)
  have r: "round_half_even (18014398509481983 / 2) = 9007199254740992"
    by (simp add: round_half_even_def Let_def)
  have n: "round_half_even ((18014398509481983 / 18014398509481984) / 2 powi (- 53))
      = 9007199254740992"
    unfolding q by (rule r)
  have "fl (18014398509481983 / 18014398509481984) = real_of_int 9007199254740992 * 2 powi (- 53)"
    by (rule fl_eval [OF _ u n]) simp
  then show ?thesis unfolding v by (simp add: power_int_minus)
qed

subsection \<open>The burst and the refill\<close>

lemma fl_small [simp]:
  "fl 1 = 1" "fl 2 = 2" "fl 3 = 3" "fl 4 = 4" "fl 5 = 5" "fl 6 = 6"
  using fl_int [of 1] fl_int [of 2] fl_int [of 3] fl_int [of 4] fl_int [of 5] fl_int [of 6]
  by simp_all

lemma allow_double_seq_Nil: "allow_double_seq L [] = ([], L)"
  by simp

lemma allow_double_seq_Cons:
  "allow_double_seq L ((now, c) # calls) =
     (fst (allow_double now c L) # fst (allow_double_seq (snd (allow_double now c L)) calls),
      snd (allow_double_seq (snd (allow_double now c L)) calls))"
  by (simp split: prod.splits)

lemma allow_double_seq_append:
  "allow_double_seq L (xs @ ys) =
     (fst (allow_double_seq L xs) @ fst (allow_double_seq (snd (allow_double_seq L xs)) ys),
      snd (allow_double_seq (snd (allow_double_seq L xs)) ys))"
proof (induction xs arbitrary: L)
  case Nil
  show ?case by simp
next
  case (Cons call xs)
  obtain now c where call: "call = (now, c)" by (cases call)
  show ?case using Cons.IH [of "snd (allow_double now c L)"] call
    by (simp add: allow_double_seq_Cons del: allow_double_seq.simps)
qed

lemma allow_double_params [simp]:
  "rate (snd (allow_double now c L)) = rate L"
  "capacity (snd (allow_double now c L)) = capacity L"
  by (simp_all add: allow_double_def Let_def)

lemma burst_double:
  fixes t :: real
  defines "L \<equiv> \<lparr>rate = 3, capacity = 6, buckets = Map.empty\<rparr>"
  shows "fst (allow_double_seq L (replicate 7 (t, X))) = replicate 6 True @ [False]"
    and "buckets (snd (allow_double_seq L (replicate 7 (t, X)))) X
          = Some \<lparr>tokens = 0, timestamp = t\<rparr>"
    and "rate (snd (allow_double_seq L (replicate 7 (t, X)))) = 3"
    and "capacity (snd (allow_double_seq L (replicate 7 (t, X)))) = 6"
  by (simp_all add: L_def numeral_eq_Suc allow_double_def Let_def)

lemma call_after_burst:
  fixes t t' :: real
  assumes "buckets S X = Some \<lparr>tokens = 0, timestamp = t\<rparr>" "capacity S = 6" "rate S = 3"
    and "r = min 6 (fl (0 + fl (max 0 (fl (t' - t)) * 3)))"
  shows "fst (allow_double t' X S) = (1 \<le> r)"
    and "1 \<le> r \<Longrightarrow> buckets (snd (allow_double t' X S)) X
           = Some \<lparr>tokens = fl (r - 1), timestamp = t'\<rparr>"
  using assms by (auto simp: allow_double_def Let_def)

lemma idle_calls_double:
  assumes "buckets S X = Some \<lparr>tokens = k, timestamp = t\<rparr>" "fl k = k" "k < 1" "k \<le> capacity S"
  shows "fst (allow_double_seq S (replicate n (t, X))) = replicate n False"
  using assms
proof (induction n arbitrary: S)
  case 0
  show ?case by simp
next
  case (Suc n)
  have r: "min (capacity S) k = k" using Suc.prems by simp
  have a: "fst (allow_double t X S) = False"
    using Suc.prems by (simp add: allow_double_def Let_def r)
  have b: "buckets (snd (allow_double t X S)) X = Some \<lparr>tokens = k, timestamp = t\<rparr>"
    using Suc.prems by (simp add: allow_double_def Let_def r)
  have "fst (allow_double_seq (snd (allow_double t X S)) (replicate n (t, X))) = replicate n False"
    using Suc.prems b by (intro Suc.IH) simp_all
  then show ?case using a by (simp add: allow_double_seq_Cons del: allow_double_seq.simps)
qed

lemma admitted_after_third:
  fixes t t' :: real
  assumes "1 / 3 \<le> t' - t"
  shows "1 \<le> min 6 (fl (0 + fl (max 0 (fl (t' - t)) * 3)))"
proof -
  have "fl (1 / 3) \<le> fl (t' - t)" using assms by (intro fl_mono_pos) simp_all
  then have e: "third_double \<le> max 0 (fl (t' - t))" by (simp add: fl_third)
  have p: "0 < third_double * 3" by (simp add: third_double_def)
  have "third_double * 3 \<le> max 0 (fl (t' - t)) * 3" using e by simp
  then have "fl (third_double * 3) \<le> fl (max 0 (fl (t' - t)) * 3)"
    using p by (intro fl_mono_pos)
  then have "1 \<le> fl (max 0 (fl (t' - t)) * 3)" by (simp add: fl_three_thirds)
  then have "fl 1 \<le> fl (0 + fl (max 0 (fl (t' - t)) * 3))"
    by (intro fl_mono_pos) simp_all
  then show ?thesis by simp
qed

lemma fl_half [simp]: "fl (1 / 2) = 1 / 2" "fl (3 / 2) = 3 / 2"
  using fl_exact [of "1 / 2" 1 "- 1"] fl_exact [of "3 / 2" 3 "- 1"]
  by (simp_all add: power_int_minus)

lemma fl_two_thirds_double: "fl two_thirds_double = two_thirds_double"
  by (rule fl_exact [of _ 6004799503160661 "- 53"]) (simp_all add: two_thirds_double_def)

lemma fl_two_thirds_times_three: "fl (two_thirds_double * 3) = 2"
proof -
  have v: "two_thirds_double * 3 = 18014398509481983 / 9007199254740992"
    by (simp add: two_thirds_double_def power_int_minus)
  have b: "binade (18014398509481983 / 9007199254740992) = 0"
    by (rule binade_eq) simp_all
  have u: "ulp_exponent (18014398509481983 / 9007199254740992) = - 52"
    by (simp add: ulp_exponent_def b)
  have q: "(18014398509481983 / 9007199254740992 :: real) / 2 powi (- 52) = 18014398509481983 / 2"
    by (simp add: power_int_minus)
  have r: "round_half_even (18014398509481983 / 2) = 9007199254740992"
    by (simp add: round_half_even_def Let_def)
  have n: "round_half_even ((18014398509481983 / 9007199254740992) / 2 powi (- 52))
      = 9007199254740992"
    unfolding q by (rule r)
  have "fl (18014398509481983 / 9007199254740992) = real_of_int 9007199254740992 * 2 powi (- 52)"
    by (rule fl_eval [OF _ u n]) simp
  then show ?thesis unfolding v by (simp add: power_int_minus)
qed

lemma refill_at_two_thirds_double:
  "two_thirds_double < 2 / 3
   \<and> min 6 (fl (0 + fl (max 0 (fl (two_thirds_double - 0)) * 3))) = 2"
proof -
  have p: "0 \<le> two_thirds_double" by (simp add: two_thirds_double_def)
  have "two_thirds_double < 2 / 3" by (simp add: two_thirds_double_def power_int_minus)
  moreover have "min 6 (fl (0 + fl (max 0 (fl (two_thirds_double - 0)) * 3))) = 2"
    using p by (simp add: fl_two_thirds_double fl_two_thirds_times_three max_def)
  ultimately show ?thesis by blast
qed

lemma two_thirds_double_bounds:
  "0 \<le> two_thirds_double" "1 / 3 \<le> two_thirds_double - 0" "two_thirds_double < 2 / 3"
  by (simp_all add: two_thirds_double_def power_int_minus)

lemma max_two_thirds_double [simp]: "max 0 two_thirds_double = two_thirds_double"
  using two_thirds_double_bounds(1) by simp

text \<open>
  Claim C2, amended. A limiter built with \<open>rate = 3\<close> and \<open>burst = 6\<close> and a client
  \<open>X\<close> with no bucket, in double-precision arithmetic: seven calls at one clock reading
  \<open>t\<close> return true six times and then false. The next call, at the reading \<open>t'\<close>,
  returns true exactly when the refilled value \<open>r = min(6, 0 + elapsed * 3)\<close> that it
  computes, with \<open>elapsed = max(0, t' - t)\<close>, is at least 1, and it is whenever
  \<open>t' - t\<close> is at least 1/3. If \<open>1 \<le> r < 2\<close> every further call at that reading
  returns false, so exactly one further call is admitted; if \<open>2 \<le> r\<close> a second call
  at that reading is admitted as well. In general one call, every operation rounded to
  double precision, refills the bucket to \<open>min(capacity, tokens + elapsed * rate)\<close>,
  with \<open>elapsed = max(0, now - timestamp)\<close>; below 1 it stores the refilled value and
  the reading and returns false, otherwise it stores the refilled value less 1 and the
  reading and returns true.
\<close>

theorem burst_then_refill_double:
  fixes t t' :: real
  assumes "RateLimiter_init 3 6 = Inr L"
    and "r = min 6 (fl (0 + fl (max 0 (fl (t' - t)) * 3)))"
  shows "fst (allow_double_seq L (replicate 7 (t, X) @ [(t', X)]))
           = replicate 6 True @ [False, 1 \<le> r]
       \<and> (1 / 3 \<le> t' - t \<longrightarrow> 1 \<le> r)
       \<and> (1 \<le> r \<and> r < 2 \<longrightarrow>
            fst (allow_double_seq L (replicate 7 (t, X) @ replicate (Suc n) (t', X)))
              = replicate 6 True @ [False, True] @ replicate n False)
       \<and> (2 \<le> r \<longrightarrow>
            fst (allow_double_seq L (replicate 7 (t, X) @ [(t', X), (t', X)]))
              = replicate 6 True @ [False, True, True])
       \<and> allow_double now c S =
           (let b = (case buckets S c of
                       None \<Rightarrow> \<lparr>tokens = capacity S, timestamp = now\<rparr> | Some b0 \<Rightarrow> b0);
                refilled = min (capacity S)
                             (fl (tokens b + fl (max 0 (fl (now - timestamp b)) * rate S)))
            in (\<not> refilled < 1,
                S\<lparr>buckets := (buckets S)(c \<mapsto>
                   \<lparr>tokens = (if refilled < 1 then refilled else fl (refilled - 1)),
                    timestamp = now\<rparr>)\<rparr>))"
proof -
  have L: "L = \<lparr>rate = 3, capacity = 6, buckets = Map.empty\<rparr>"
    using assms(1) by (simp add: init_Inr)
  define S7 where "S7 = snd (allow_double_seq L (replicate 7 (t, X)))"
  have b7: "buckets S7 X = Some \<lparr>tokens = 0, timestamp = t\<rparr>"
    and c7: "capacity S7 = 6" "rate S7 = 3"
    unfolding S7_def L by (rule burst_double)+
  have r7: "fst (allow_double_seq L (replicate 7 (t, X))) = replicate 6 True @ [False]"
    unfolding L by (rule burst_double(1))
  define S8 where "S8 = snd (allow_double t' X S7)"
  have r8: "fst (allow_double t' X S7) = (1 \<le> r)"
    by (rule call_after_burst(1) [OF b7 c7 assms(2)])
  have seq: "fst (allow_double_seq L (replicate 7 (t, X) @ calls))
      = replicate 6 True @ [False] @ fst (allow_double_seq S7 calls)" for calls
    by (simp add: allow_double_seq_append r7 S7_def
        del: allow_double_seq.simps replicate.simps)
  have first: "fst (allow_double_seq S7 ((t', X) # calls))
      = (1 \<le> r) # fst (allow_double_seq S8 calls)" for calls
    by (simp add: allow_double_seq_Cons r8 S8_def del: allow_double_seq.simps)
  have A: "fst (allow_double_seq L (replicate 7 (t, X) @ [(t', X)]))
           = replicate 6 True @ [False, 1 \<le> r]"
    unfolding seq first by simp
  have B: "1 / 3 \<le> t' - t \<longrightarrow> 1 \<le> r"
    unfolding assms(2) using admitted_after_third [of t' t] by blast
  have C: "fst (allow_double_seq L (replicate 7 (t, X) @ replicate (Suc n) (t', X)))
              = replicate 6 True @ [False, True] @ replicate n False"
    if r: "1 \<le> r" "r < 2"
  proof -
    define z where "z = 0 + fl (max 0 (fl (t' - t)) * 3)"
    have rz: "r = fl z" using r(2) by (simp add: assms(2) z_def)
    have u: "1 \<le> fl z" "fl z < 2" using r by (simp_all add: rz)
    have k: "fl (r - 1) = r - 1" "fl (fl (r - 1)) = r - 1"
      unfolding rz by (rule fl_unit_minus_one [OF u])+
    have b8: "buckets S8 X = Some \<lparr>tokens = r - 1, timestamp = t'\<rparr>"
      unfolding S8_def using call_after_burst(2) [OF b7 c7 assms(2) r(1)] by (simp add: k)
    have "capacity S8 = 6" by (simp add: S8_def c7)
    then have "fst (allow_double_seq S8 (replicate n (t', X))) = replicate n False"
      using b8 r k by (intro idle_calls_double [where k = "r - 1"]) simp_all
    then show ?thesis unfolding replicate.simps seq first using r(1) by simp
  qed
  have D: "fst (allow_double_seq L (replicate 7 (t, X) @ [(t', X), (t', X)]))
              = replicate 6 True @ [False, True, True]"
    if r: "2 \<le> r"
  proof -
    have r1: "1 \<le> r" using r by simp
    have b8: "buckets S8 X = Some \<lparr>tokens = fl (r - 1), timestamp = t'\<rparr>"
      unfolding S8_def by (rule call_after_burst(2) [OF b7 c7 assms(2) r1])
    have "fl 1 \<le> fl (r - 1)" using r by (intro fl_mono_pos) simp_all
    then have k1: "1 \<le> fl (r - 1)" by simp
    then have "fl 1 \<le> fl (fl (r - 1))" by (intro fl_mono_pos) simp_all
    then have k2: "1 \<le> fl (fl (r - 1))" by simp
    have "capacity S8 = 6" by (simp add: S8_def c7)
    then have "fst (allow_double t' X S8) = True"
      using b8 k2 by (simp add: allow_double_def Let_def)
    then show ?thesis
      unfolding seq first using r1
      by (simp add: allow_double_seq_Cons allow_double_seq_Nil del: allow_double_seq.simps)
  qed
  have E: "allow_double now c S =
           (let b = (case buckets S c of
                       None \<Rightarrow> \<lparr>tokens = capacity S, timestamp = now\<rparr> | Some b0 \<Rightarrow> b0);
                refilled = min (capacity S)
                             (fl (tokens b + fl (max 0 (fl (now - timestamp b)) * rate S)))
            in (\<not> refilled < 1,
                S\<lparr>buckets := (buckets S)(c \<mapsto>
                   \<lparr>tokens = (if refilled < 1 then refilled else fl (refilled - 1)),
                    timestamp = now\<rparr>)\<rparr>))"
    by (simp add: allow_double_def Let_def)
  show ?thesis using A B C D E by blast
qed

theorem burst_then_refill_double_witness:
  "RateLimiter_init 3 6 = Inr \<lparr>rate = 3, capacity = 6, buckets = Map.empty\<rparr>
   \<and> (3 / 2 :: real) = min 6 (fl (0 + fl (max 0 (fl (1 / 2 - 0)) * 3)))
   \<and> (1 / 3 :: real) \<le> 1 / 2 - 0 \<and> (1 :: real) \<le> 3 / 2 \<and> (3 / 2 :: real) < 2
   \<and> fst (allow_double_seq \<lparr>rate = 3, capacity = 6, buckets = Map.empty\<rparr>
        (replicate 7 (0, ''X'') @ [(1 / 2, ''X'')])) = replicate 6 True @ [False, True]
   \<and> fst (allow_double_seq \<lparr>rate = 3, capacity = 6, buckets = Map.empty\<rparr>
        (replicate 7 (0, ''X'') @ replicate (Suc 2) (1 / 2, ''X''))) =
      replicate 6 True @ [False, True] @ replicate 2 False
   \<and> (3 :: real) = min 6 (fl (0 + fl (max 0 (fl (1 - 0)) * 3)))
   \<and> (1 / 3 :: real) \<le> 1 - 0 \<and> (2 :: real) \<le> 3
   \<and> fst (allow_double_seq \<lparr>rate = 3, capacity = 6, buckets = Map.empty\<rparr>
        (replicate 7 (0, ''X'') @ [(1, ''X''), (1, ''X'')])) = replicate 6 True @ [False, True, True]"
proof -
  have i: "RateLimiter_init 3 6 = Inr \<lparr>rate = 3, capacity = 6, buckets = Map.empty\<rparr>"
    by (simp add: RateLimiter_init_def)
  have r1: "(3 / 2 :: real) = min 6 (fl (0 + fl (max 0 (fl (1 / 2 - 0)) * 3)))"
    by simp
  have r2: "(3 :: real) = min 6 (fl (0 + fl (max 0 (fl (1 - 0)) * 3)))"
    by simp
  have p1: "(1 / 3 :: real) \<le> 1 / 2 - 0" and p2: "(1 :: real) \<le> 3 / 2" and p3: "(3 / 2 :: real) < 2"
    and p4: "(1 / 3 :: real) \<le> 1 - 0" and p5: "(2 :: real) \<le> 3"
    by simp_all
  have p6: "(1 \<le> (3 / 2 :: real)) = True" by simp
  note w1 = burst_then_refill_double [OF i r1, where X = "''X''" and n = 2]
  note w2 = burst_then_refill_double [OF i r2, where X = "''X''"]
  have a: "fst (allow_double_seq \<lparr>rate = 3, capacity = 6, buckets = Map.empty\<rparr>
        (replicate 7 (0, ''X'') @ [(1 / 2, ''X'')])) = replicate 6 True @ [False, True]"
    using w1 unfolding p6 by blast
  have b: "fst (allow_double_seq \<lparr>rate = 3, capacity = 6, buckets = Map.empty\<rparr>
        (replicate 7 (0, ''X'') @ replicate (Suc 2) (1 / 2, ''X''))) =
      replicate 6 True @ [False, True] @ replicate 2 False"
    using w1 p2 p3 by blast
  have c: "fst (allow_double_seq \<lparr>rate = 3, capacity = 6, buckets = Map.empty\<rparr>
        (replicate 7 (0, ''X'') @ [(1, ''X''), (1, ''X'')])) = replicate 6 True @ [False, True, True]"
    using w2 p5 by blast
  show ?thesis using i r1 r2 p1 p2 p3 p4 p5 a b c by blast
qed

text \<open>
  The claim as stated fails: a wait of at least 1/3 second does not bound the refill by 2.
  After the burst and a wait of \<open>0.6666666666666666\<close> second, which is less than 2/3,
  the product \<open>elapsed * 3\<close> is rounded to \<open>2.0\<close> and two further calls return true;
  after a wait of one second three further calls return true.
\<close>

theorem exactly_one_after_wait_counterexample:
  "RateLimiter_init 3 6 = Inr \<lparr>rate = 3, capacity = 6, buckets = Map.empty\<rparr>
   \<and> 1 / 3 \<le> two_thirds_double - 0 \<and> two_thirds_double < 2 / 3
   \<and> fst (allow_double_seq \<lparr>rate = 3, capacity = 6, buckets = Map.empty\<rparr>
        [(0, ''X''), (0, ''X''), (0, ''X''), (0, ''X''), (0, ''X''), (0, ''X''), (0, ''X''),
         (two_thirds_double, ''X''), (two_thirds_double, ''X''), (two_thirds_double, ''X'')]) =
      [True, True, True, True, True, True, False, True, True, False]
   \<and> (1 / 3 :: real) \<le> 1 - 0
   \<and> fst (allow_double_seq \<lparr>rate = 3, capacity = 6, buckets = Map.empty\<rparr>
        [(0, ''X''), (0, ''X''), (0, ''X''), (0, ''X''), (0, ''X''), (0, ''X''), (0, ''X''),
         (1, ''X''), (1, ''X''), (1, ''X''), (1, ''X'')]) =
      [True, True, True, True, True, True, False, True, True, True, False]"
proof -
  have a: "fst (allow_double_seq \<lparr>rate = 3, capacity = 6, buckets = Map.empty\<rparr>
        [(0, ''X''), (0, ''X''), (0, ''X''), (0, ''X''), (0, ''X''), (0, ''X''), (0, ''X''),
         (two_thirds_double, ''X''), (two_thirds_double, ''X''), (two_thirds_double, ''X'')]) =
      [True, True, True, True, True, True, False, True, True, False]"
    by (simp add: allow_double_def Let_def fl_two_thirds_double fl_two_thirds_times_three)
  have b: "fst (allow_double_seq \<lparr>rate = 3, capacity = 6, buckets = Map.empty\<rparr>
        [(0, ''X''), (0, ''X''), (0, ''X''), (0, ''X''), (0, ''X''), (0, ''X''), (0, ''X''),
         (1, ''X''), (1, ''X''), (1, ''X''), (1, ''X'')]) =
      [True, True, True, True, True, True, False, True, True, True, False]"
    by (simp add: allow_double_def Let_def)
  show ?thesis
    using a b two_thirds_double_bounds(2,3) by (simp add: RateLimiter_init_def)
qed

section \<open>Facts about the metrics\<close>

lemma py_getitem_in_range:
  "0 \<le> i \<Longrightarrow> i < int (length xs) \<Longrightarrow> py_getitem xs i = Inr (xs ! nat i)"
  by (simp add: py_getitem_def)

lemma percentile_refines:
  assumes "0 \<le> p" "p \<le> 1"
  shows "percentile values p = Inr (spec_percentile values p)"
proof (cases "values = []")
  case True
  then show ?thesis by (simp add: percentile_def spec_percentile_def)
next
  case False
  define ordered where "ordered = sort values"
  define n where "n = length ordered"
  have n: "0 < n" using False by (simp add: n_def ordered_def)
  define k where "k = real_of_int (int n - 1) * p"
  have k_alt: "k = real (n - 1) * p" using n by (simp add: k_def of_nat_diff)
  have k0: "0 \<le> k" using assms(1) n by (simp add: k_def)
  have "k \<le> real_of_int (int n - 1) * 1"
    unfolding k_def using assms(2) n by (intro mult_left_mono) simp_all
  then have k1: "k \<le> real_of_int (int n - 1)" by simp
  have f0: "0 \<le> \<lfloor>k\<rfloor>" using k0 by simp
  have f1: "\<lfloor>k\<rfloor> < int n" using k1 by (simp add: floor_less_iff)
  have c0: "0 \<le> \<lceil>k\<rceil>" using k0 by (simp add: le_ceiling_iff)
  have "\<lceil>k\<rceil> \<le> \<lceil>real_of_int (int n - 1)\<rceil>" using k1 by (rule ceiling_mono)
  then have "\<lceil>k\<rceil> \<le> int n - 1" by (simp only: ceiling_of_int)
  then have c1: "\<lceil>k\<rceil> < int n" by simp
  have gf: "py_getitem ordered \<lfloor>k\<rfloor> = Inr (ordered ! nat \<lfloor>k\<rfloor>)"
    using f0 f1 by (simp add: py_getitem_in_range n_def)
  have gc: "py_getitem ordered \<lceil>k\<rceil> = Inr (ordered ! nat \<lceil>k\<rceil>)"
    using c0 c1 by (simp add: py_getitem_in_range n_def)
  have tr: "py_int_of_float k = \<lfloor>k\<rfloor>" using k0 by (simp add: py_int_of_float_def)
  have eq: "\<lfloor>k\<rfloor> = \<lceil>k\<rceil> \<longleftrightarrow> nat \<lfloor>k\<rfloor> = nat \<lceil>k\<rceil>"
    using f0 c0 by (metis nat_eq_iff)
  have rf: "real (nat \<lfloor>k\<rfloor>) = real_of_int \<lfloor>k\<rfloor>" using f0 by simp
  have rc: "real (nat \<lceil>k\<rceil>) = real_of_int \<lceil>k\<rceil>" using c0 by simp
  have lhs: "percentile values p =
      (if \<lfloor>k\<rfloor> = \<lceil>k\<rceil> then Inr (ordered ! nat \<lfloor>k\<rfloor>)
       else Inr (ordered ! nat \<lfloor>k\<rfloor> * (real_of_int \<lceil>k\<rceil> - k)
                 + ordered ! nat \<lceil>k\<rceil> * (k - real_of_int \<lfloor>k\<rfloor>)))"
    using False
    unfolding percentile_def Let_def ordered_def [symmetric] n_def [symmetric] k_def [symmetric]
      gf gc tr
    by simp
  have rhs: "spec_percentile values p =
      (if nat \<lfloor>k\<rfloor> = nat \<lceil>k\<rceil> then ordered ! nat \<lfloor>k\<rfloor>
       else ordered ! nat \<lfloor>k\<rfloor> * (real (nat \<lceil>k\<rceil>) - k)
            + ordered ! nat \<lceil>k\<rceil> * (k - real (nat \<lfloor>k\<rfloor>)))"
    using False
    unfolding spec_percentile_def Let_def ordered_def [symmetric] n_def [symmetric]
      k_alt [symmetric]
    by simp
  show ?thesis unfolding lhs rhs rf rc using eq by simp
qed

lemma floor_57_20: "\<lfloor>57 / 20 :: real\<rfloor> = 2"
  by (simp add: floor_eq_iff)

lemma ceiling_57_20: "\<lceil>57 / 20 :: real\<rceil> = 3"
  by (simp add: ceiling_eq_iff)

lemma window_p50: "percentile [10, 20, 30, 40] (1 / 2) = Inr 25"
  by (simp add: percentile_def Let_def py_getitem_def py_int_of_float_def)

lemma window_p95: "percentile [10, 20, 30, 40] (95 / 100) = Inr (77 / 2)"
  by (simp add: percentile_def Let_def py_getitem_def floor_57_20 ceiling_57_20)

text \<open>
  Claim C3. For a percentile \<open>p\<close> between 0 and 1, \<open>_percentile\<close> returns (without
  an IndexError) the value that the specification words: the sorted window interpolated
  linearly between the order statistics at \<open>floor(k)\<close> and \<open>ceil(k)\<close>, \<open>k = (n-1)*p\<close>.
  \<open>snapshot\<close> reports this value at \<open>p = 0.5\<close> and \<open>p = 0.95\<close> of the current
  window, beside the totals. For the window [10, 20, 30, 40] the two are 25 and 38.5, and
  for an empty window every percentile is 0. (Floats are real numbers here.)
\<close>

theorem snapshot_percentiles:
  assumes "0 \<le> p" "p \<le> 1"
  shows "percentile values p = Inr (spec_percentile values p)
       \<and> snapshot m = Inr \<lparr>snap_requests_total = requests_total m,
            snap_tokens_prompt_total = prompt_tokens_total m,
            snap_tokens_completion_total = completion_tokens_total m,
            snap_latency_ms_p50 = spec_percentile (latencies m) (1 / 2),
            snap_latency_ms_p95 = spec_percentile (latencies m) (95 / 100)\<rparr>
       \<and> percentile [10, 20, 30, 40] (1 / 2) = Inr 25
       \<and> percentile [10, 20, 30, 40] (95 / 100) = Inr 38.5
       \<and> percentile [] p = Inr 0"
proof -
  have a: "percentile (latencies m) (1 / 2) = Inr (spec_percentile (latencies m) (1 / 2))"
    by (rule percentile_refines) simp_all
  have b: "percentile (latencies m) (95 / 100) = Inr (spec_percentile (latencies m) (95 / 100))"
    by (rule percentile_refines) simp_all
  have s: "snapshot m = Inr \<lparr>snap_requests_total = requests_total m,
            snap_tokens_prompt_total = prompt_tokens_total m,
            snap_tokens_completion_total = completion_tokens_total m,
            snap_latency_ms_p50 = spec_percentile (latencies m) (1 / 2),
            snap_latency_ms_p95 = spec_percentile (latencies m) (95 / 100)\<rparr>"
    unfolding snapshot_def a b by simp
  have c: "percentile [10, 20, 30, 40] (95 / 100) = Inr 38.5"
    using window_p95 by simp
  have d: "percentile [] p = Inr 0" by (simp add: percentile_def)
  show ?thesis using percentile_refines [OF assms] s window_p50 c d by blast
qed

theorem snapshot_percentiles_witness:
  "(0 :: real) \<le> 1 / 4 \<and> (1 / 4 :: real) \<le> 1
   \<and> percentile [40, 10, 30, 20] (1 / 4) = Inr (spec_percentile [40, 10, 30, 20] (1 / 4))
   \<and> spec_percentile [40, 10, 30, 20] (1 / 4) = 35 / 2"
proof -
  have a: "(0 :: real) \<le> 1 / 4" and b: "(1 / 4 :: real) \<le> 1" by simp_all
  have f: "\<lfloor>3 / 4 :: real\<rfloor> = 0" by (simp add: floor_eq_iff)
  have c: "\<lceil>3 / 4 :: real\<rceil> = 1" by (simp add: ceiling_eq_iff)
  have v: "spec_percentile [40, 10, 30, 20] (1 / 4) = 35 / 2"
    by (simp add: spec_percentile_def Let_def f c)
  show ?thesis using snapshot_percentiles [OF a b, of "[40, 10, 30, 20]"] a b v by blast
qed

section \<open>Facts about the streaming handlers\<close>

lemma tokens_of_Nil [simp]: "tokens_of [] = []"
  by (simp add: tokens_of_def)

lemma tokens_of_Cons:
  "tokens_of (ch # chs) =
     (if token_from_chunk ch \<noteq> [] then [token_from_chunk ch] else []) @ tokens_of chs"
  by (simp add: tokens_of_def)

lemma sse_advance_Nil [simp]: "sse_advance [] st = st"
  by (simp add: sse_advance_def)

lemma sse_loop_pass:
  assumes "list_all passes pre"
  shows "sse_loop s f (pre @ rest) st = sse_loop s f rest (sse_advance pre st)"
  using assms
proof (induction pre arbitrary: st)
  case Nil
  show ?case by simp
next
  case (Cons ch pre)
  have "passes ch" and p3: "list_all passes pre" using Cons.prems by simp_all
  then have p: "truthy_str (c_error ch) = None" "c_done ch \<noteq> Some True" "list_all passes pre"
    by (simp_all add: passes_def)
  define st2 where "st2 = sse_advance [ch] st"
  have step: "sse_loop s f (ch # (pre @ rest)) st = sse_loop s f (pre @ rest) st2"
    using p(1,2) by (cases st) (simp add: st2_def sse_advance_def tokens_of_Cons Let_def)
  have adv: "sse_advance pre st2 = sse_advance (ch # pre) st"
    by (cases st) (simp add: st2_def sse_advance_def tokens_of_Cons)
  show ?case using step Cons.IH [OF p(3), of st2] adv by simp
qed

lemma ws_advance_Nil [simp]: "ws_advance [] st = st"
  by (simp add: ws_advance_def)

lemma ws_advance_connected [simp]:
  "application_state (websocket (ws_advance pre st)) = application_state (websocket st)"
  by (simp add: ws_advance_def)

lemma ws_loop_pass:
  assumes "application_state (websocket st) = CONNECTED" "list_all passes pre"
  shows "ws_loop s f (pre @ rest) st = ws_loop s f rest (ws_advance pre st)"
  using assms
proof (induction pre arbitrary: st)
  case Nil
  show ?case by simp
next
  case (Cons ch pre)
  have "passes ch" and p3: "list_all passes pre" using Cons.prems by simp_all
  then have p: "truthy_str (c_error ch) = None" "c_done ch \<noteq> Some True" "list_all passes pre"
    by (simp_all add: passes_def)
  define st2 where "st2 = ws_advance [ch] st"
  have c2: "application_state (websocket st2) = CONNECTED"
    using Cons.prems(1) by (simp add: st2_def)
  have step: "ws_loop s f (ch # (pre @ rest)) st = ws_loop s f (pre @ rest) st2"
    using p(1,2) Cons.prems(1)
    by (cases st) (simp add: st2_def ws_advance_def tokens_of_Cons Let_def send_json_def)
  have adv: "ws_advance pre st2 = ws_advance (ch # pre) st"
    by (cases st) (simp add: st2_def ws_advance_def tokens_of_Cons)
  show ?case using step Cons.IH [OF c2 p(3)] adv by simp
qed



lemma sse_loop_error:
  assumes "truthy_str (c_error ch) = Some e"
  shows "sse_loop s f (ch # post) st =
           (Raised (HTTPException 502 e), st\<lparr>sse_consumed := sse_consumed st + 1\<rparr>)"
  using assms by (simp add: Let_def)


lemma sse_gen_exhausted:
  assumes "list_all passes (chunks bs)" "failure bs = None"
  shows "sse_chat_generator s f bs m =
     (None, \<lparr>collected = tokens_of (chunks bs),
             yielded = map TokenEvent (tokens_of (chunks bs)) @
               [DoneEvent (concat (tokens_of (chunks bs))) UsageStats_default (latency_of s f)],
             sse_metrics = metrics_record m (real_of_int (latency_of s f)) 0 0,
             sse_consumed = length (chunks bs)\<rparr>)"
proof -
  have "sse_loop s f (chunks bs @ []) (sse_start m) = (Exhausted, sse_advance (chunks bs) (sse_start m))"
    using sse_loop_pass [OF assms(1), of s f "[]" "sse_start m"] by simp
  then show ?thesis using assms(2)
    by (simp add: sse_chat_generator_def sse_start_def sse_advance_def Let_def)
qed


lemma sse_gen_error:
  assumes "chunks bs = pre @ ch # post" "list_all passes pre" "truthy_str (c_error ch) = Some e"
  shows "sse_chat_generator s f bs m =
     (Some (HTTPException 502 e),
      \<lparr>collected = tokens_of pre,
       yielded = map TokenEvent (tokens_of pre),
       sse_metrics = m,
       sse_consumed = length pre + 1\<rparr>)"
proof -
  have "sse_loop s f (pre @ ch # post) (sse_start m) =
          (Raised (HTTPException 502 e),
           (sse_advance pre (sse_start m))\<lparr>sse_consumed := sse_consumed (sse_advance pre (sse_start m)) + 1\<rparr>)"
    using sse_loop_pass [OF assms(2), of s f "ch # post" "sse_start m"]
      sse_loop_error [OF assms(3)] by simp
  then show ?thesis using assms(1)
    by (simp add: sse_chat_generator_def sse_start_def sse_advance_def Let_def)
qed


lemma ws_loop_error:
  assumes "truthy_str (c_error ch) = Some e"
  shows "ws_loop s f (ch # post) st =
           (Finished, st\<lparr>ws_consumed := ws_consumed st + 1,
                          websocket := send_ws_error (websocket st) e None\<rparr>)"
  using assms by (cases st) (simp add: Let_def)


lemma ws_exhausted:
  assumes "application_state ws = CONNECTED" "list_all passes (chunks bs)" "failure bs = None"
  shows "handle_websocket_chat s f bs ws m =
     \<lparr>ws_collected = tokens_of (chunks bs),
      websocket = ws\<lparr>sent := sent ws @ map TokenEvent (tokens_of (chunks bs)) @
         [DoneEvent (concat (tokens_of (chunks bs))) UsageStats_default (latency_of s f)]\<rparr>,
      ws_metrics = metrics_record m (real_of_int (latency_of s f)) 0 0,
      ws_consumed = length (chunks bs)\<rparr>"
proof -
  have c: "application_state (websocket (ws_start ws m)) = CONNECTED"
    using assms(1) by (simp add: ws_start_def)
  have "ws_loop s f (chunks bs @ []) (ws_start ws m) = (Exhausted, ws_advance (chunks bs) (ws_start ws m))"
    using ws_loop_pass [OF c assms(2), of s f "[]"] by simp
  then show ?thesis using assms(1,3)
    by (simp add: handle_websocket_chat_def ws_start_def ws_advance_def Let_def send_json_def)
qed


lemma ws_error:
  assumes "application_state ws = CONNECTED" "chunks bs = pre @ ch # post"
    "list_all passes pre" "truthy_str (c_error ch) = Some e"
  shows "handle_websocket_chat s f bs ws m =
     \<lparr>ws_collected = tokens_of pre,
      websocket = ws\<lparr>sent := sent ws @ map TokenEvent (tokens_of pre) @ [ErrorEvent e None]\<rparr>,
      ws_metrics = m,
      ws_consumed = length pre + 1\<rparr>"
proof -
  have c: "application_state (websocket (ws_start ws m)) = CONNECTED"
    using assms(1) by (simp add: ws_start_def)
  have "ws_loop s f (pre @ ch # post) (ws_start ws m) =
          ws_loop s f (ch # post) (ws_advance pre (ws_start ws m))"
    by (rule ws_loop_pass [OF c assms(3)])
  then show ?thesis using assms(1,2)
    by (simp add: handle_websocket_chat_def ws_loop_error [OF assms(4)] ws_start_def
        ws_advance_def send_ws_error_def del: ws_loop.simps)
qed







lemmas run_defs = handle_websocket_chat_def sse_chat_generator_def Let_def truthy_str_def
  token_from_chunk_def usage_from_chunk_def empty_chunk_def hi_chunk_def done_chunk_def
  error_chunk_def ws0_def send_json_def send_ws_error_def latency_of_def py_int_of_float_def
  metrics_record_def MetricsCollector_init_def deque_append_def UsageStats_default_def




text \<open>
  Claim C4. When the chunk stream ends without any chunk marked done, that is, when the
  loop of the handler runs off the end of the stream (every chunk was passed, and the
  client raised nothing), either handler emits the token events and then exactly one done
  event, whose content is the concatenation of the tokens collected so far (possibly
  empty) and whose usage counters are all zero, and records exactly one metrics sample
  with zero token counts: \<open>requests_total\<close> grows by one, the token totals stay.
\<close>

theorem truncated_stream_done:
  assumes "list_all passes (chunks bs)" "failure bs = None" "application_state ws = CONNECTED"
  shows "sse_chat_generator s f bs m =
           (None,
            \<lparr>collected = tokens_of (chunks bs),
             yielded = map TokenEvent (tokens_of (chunks bs)) @
               [DoneEvent (concat (tokens_of (chunks bs)))
                  \<lparr>prompt_tokens = 0, completion_tokens = 0, total_tokens = 0\<rparr> (latency_of s f)],
             sse_metrics = metrics_record m (real_of_int (latency_of s f)) 0 0,
             sse_consumed = length (chunks bs)\<rparr>)
       \<and> handle_websocket_chat s f bs ws m =
           \<lparr>ws_collected = tokens_of (chunks bs),
            websocket = ws\<lparr>sent := sent ws @ map TokenEvent (tokens_of (chunks bs)) @
               [DoneEvent (concat (tokens_of (chunks bs)))
                  \<lparr>prompt_tokens = 0, completion_tokens = 0, total_tokens = 0\<rparr> (latency_of s f)]\<rparr>,
            ws_metrics = metrics_record m (real_of_int (latency_of s f)) 0 0,
            ws_consumed = length (chunks bs)\<rparr>
       \<and> requests_total (metrics_record m (real_of_int (latency_of s f)) 0 0) = requests_total m + 1
       \<and> prompt_tokens_total (metrics_record m (real_of_int (latency_of s f)) 0 0)
           = prompt_tokens_total m
       \<and> completion_tokens_total (metrics_record m (real_of_int (latency_of s f)) 0 0)
           = completion_tokens_total m"
  using sse_gen_exhausted [OF assms(1,2), of s f m] ws_exhausted [OF assms(3,1,2), of s f m]
  by (simp add: UsageStats_default_def metrics_record_def)

theorem truncated_stream_done_witness:
  "list_all passes [hi_chunk, hi_chunk]
   \<and> application_state ws0 = CONNECTED
   \<and> sse_chat_generator 0 (1 / 4) \<lparr>chunks = [hi_chunk, hi_chunk], failure = None\<rparr>
        (MetricsCollector_init 512) =
       (None,
        \<lparr>collected = [''Hi'', ''Hi''],
         yielded = [TokenEvent ''Hi'', TokenEvent ''Hi'',
            DoneEvent ''HiHi'' \<lparr>prompt_tokens = 0, completion_tokens = 0, total_tokens = 0\<rparr> 250],
         sse_metrics = \<lparr>maxlen = 512, latencies = [250], requests_total = 1,
            prompt_tokens_total = 0, completion_tokens_total = 0\<rparr>,
         sse_consumed = 2\<rparr>)"
proof -
  have p: "list_all passes (chunks \<lparr>chunks = [hi_chunk, hi_chunk], failure = None\<rparr>)"
    by (simp add: passes_def run_defs)
  have n: "failure \<lparr>chunks = [hi_chunk, hi_chunk], failure = None\<rparr> = None" by simp
  have c: "application_state ws0 = CONNECTED" by (simp add: ws0_def)
  have t: "tokens_of [hi_chunk, hi_chunk] = [''Hi'', ''Hi'']"
    by (simp add: tokens_of_def run_defs)
  show ?thesis
    using truncated_stream_done [OF p n c, of 0 "1 / 4" "MetricsCollector_init 512"] p c
    by (simp add: t latency_of_def py_int_of_float_def metrics_record_def
        MetricsCollector_init_def deque_append_def)
qed

text \<open>
  Claim C9, amended. When a chunk with an error indicator arrives after chunks that the
  loop passed, either handler takes no further chunk and records no metrics sample (the
  collector is unchanged). The WebSocket handler, on a connected socket, sends the
  upstream message as a terminal error frame after the token frames. The streaming
  generator raises \<open>HTTPException(502)\<close> with the upstream message as its detail, and
  yields no error event.
\<close>

theorem error_chunk_stops_turn:
  assumes "chunks bs = pre @ ch # post" "list_all passes pre"
    "truthy_str (c_error ch) = Some e" "application_state ws = CONNECTED"
  shows "handle_websocket_chat s f bs ws m =
           \<lparr>ws_collected = tokens_of pre,
            websocket = ws\<lparr>sent := sent ws @ map TokenEvent (tokens_of pre) @ [ErrorEvent e None]\<rparr>,
            ws_metrics = m,
            ws_consumed = length pre + 1\<rparr>
       \<and> sse_chat_generator s f bs m =
           (Some (HTTPException 502 e),
            \<lparr>collected = tokens_of pre,
             yielded = map TokenEvent (tokens_of pre),
             sse_metrics = m,
             sse_consumed = length pre + 1\<rparr>)"
  using ws_error [OF assms(4,1,2,3), of s f m] sse_gen_error [OF assms(1,2,3), of s f m]
  by simp

theorem error_chunk_stops_turn_witness:
  "list_all passes [hi_chunk]
   \<and> truthy_str (c_error error_chunk) = Some ''boom''
   \<and> application_state ws0 = CONNECTED
   \<and> handle_websocket_chat 0 (1 / 4)
        \<lparr>chunks = [hi_chunk, error_chunk, done_chunk], failure = None\<rparr> ws0
        (MetricsCollector_init 512) =
       \<lparr>ws_collected = [''Hi''],
        websocket = \<lparr>application_state = CONNECTED,
                     sent = [TokenEvent ''Hi'', ErrorEvent ''boom'' None]\<rparr>,
        ws_metrics = MetricsCollector_init 512,
        ws_consumed = 2\<rparr>"
proof -
  have d: "chunks \<lparr>chunks = [hi_chunk, error_chunk, done_chunk], failure = None\<rparr>
           = [hi_chunk] @ error_chunk # [done_chunk]" by simp
  have p: "list_all passes [hi_chunk]" by (simp add: passes_def run_defs)
  have e: "truthy_str (c_error error_chunk) = Some ''boom''" by (simp add: run_defs)
  have c: "application_state ws0 = CONNECTED" by (simp add: ws0_def)
  have t: "tokens_of [hi_chunk] = [''Hi'']" by (simp add: tokens_of_def run_defs)
  show ?thesis
    using error_chunk_stops_turn [OF d p e c, of 0 "1 / 4" "MetricsCollector_init 512"] p e c
    by (simp add: t ws0_def)
qed

text \<open>
  The claim as stated fails for the streaming generator: the message of an error chunk is
  raised as an exception, and no error event is among the events it yields.
\<close>

theorem sse_no_error_event_counterexample:
  "truthy_str (c_error error_chunk) = Some ''boom''
   \<and> fst (sse_chat_generator 0 (1 / 4)
        \<lparr>chunks = [hi_chunk, error_chunk, done_chunk], failure = None\<rparr>
        (MetricsCollector_init 512)) = Some (HTTPException 502 ''boom'')
   \<and> yielded (snd (sse_chat_generator 0 (1 / 4)
        \<lparr>chunks = [hi_chunk, error_chunk, done_chunk], failure = None\<rparr>
        (MetricsCollector_init 512))) = [TokenEvent ''Hi'']
   \<and> \<not> list_ex is_error_event (yielded (snd (sse_chat_generator 0 (1 / 4)
        \<lparr>chunks = [hi_chunk, error_chunk, done_chunk], failure = None\<rparr>
        (MetricsCollector_init 512))))"
  by (simp add: run_defs)

section \<open>Facts about the routes\<close>

lemma validate_empty:
  "messages body = [] \<Longrightarrow> ChatRequest_validate body = Inl (ValidationError ''messages'')"
  by (simp add: ChatRequest_validate_def validate_messages_def)

lemma enforce_rate_limit_allow:
  "enforce_rate_limit now request L =
     (if fst (allow now (client_of request) L) then None
      else Some (HTTPException 429 ''Rate limit exceeded''),
      snd (allow now (client_of request) L))"
  by (simp add: enforce_rate_limit_def client_of_def Let_def split: prod.splits)


text \<open>
  Claim C5, amended. A \<open>POST /api/chat\<close> request with an empty \<open>messages\<close> list
  never starts a backend request and records no metrics sample. It is not rejected before
  the admission check: the dependencies of the route run before the body is validated.
  When the API-key dependency refuses the request, that error is the answer and \<open>allow\<close>
  is not called. Otherwise \<open>allow\<close> is called once for the identity of the request, the
  limiter keeps the state that call leaves (a token is taken when one is there), and the
  request is answered by the validation failure when \<open>allow\<close> admits it, and by 429
  otherwise.
\<close>

theorem empty_messages_after_admission:
  assumes "messages body = []"
  shows "chat_route settings env request body app =
           (case verify_api_key settings request of
              Some e \<Rightarrow> (ErrorResponse e, app)
            | None \<Rightarrow>
                (if fst (allow (env_now env) (client_of request) (limiter app))
                 then ErrorResponse (ValidationError ''messages'')
                 else ErrorResponse (HTTPException 429 ''Rate limit exceeded''),
                 app\<lparr>limiter := snd (allow (env_now env) (client_of request) (limiter app))\<rparr>))
       \<and> backend_calls (snd (chat_route settings env request body app)) = backend_calls app
       \<and> app_metrics (snd (chat_route settings env request body app)) = app_metrics app"
  using assms
  by (simp add: chat_route_def enforce_rate_limit_allow validate_empty split: option.splits)

theorem empty_messages_after_admission_witness:
  "messages empty_body = []
   \<and> chat_route settings0 env0 request0 empty_body app_exhausted =
       (ErrorResponse (HTTPException 429 ''Rate limit exceeded''), app_exhausted)
   \<and> chat_route settings_enforced env0 request0 empty_body app0 =
       (ErrorResponse (HTTPException 401 ''Invalid API key''), app0)
   \<and> backend_calls (snd (chat_route settings0 env0 request0 empty_body app_exhausted)) = []"
proof -
  have m: "messages empty_body = []" by (simp add: empty_body_def)
  have v: "verify_api_key settings0 request0 = None"
    by (simp add: verify_api_key_def settings0_def)
  have w: "verify_api_key settings_enforced request0 = Some (HTTPException 401 ''Invalid API key'')"
    by (simp add: verify_api_key_def settings_enforced_def settings0_def request0_def truthy_str_def)
  have c: "client_of request0 = ''10.0.0.1''"
    by (simp add: client_of_def request0_def client_identifier_from_headers_def truthy_str_def)
  have a: "allow 0 ''10.0.0.1'' (limiter app_exhausted) = (False, limiter app_exhausted)"
    by (simp add: app_exhausted_def app0_def allow_def Let_def)
  have e: "env_now env0 = 0" by (simp add: env0_def)
  have x: "app_exhausted\<lparr>limiter := limiter app_exhausted\<rparr> = app_exhausted" by simp
  have b: "backend_calls app_exhausted = []" by (simp add: app_exhausted_def app0_def)
  show ?thesis
    using empty_messages_after_admission [OF m, of settings0 env0 request0 app_exhausted]
      empty_messages_after_admission [OF m, of settings_enforced env0 request0 app0] m
    by (simp add: v w c a e x b)
qed

text \<open>
  The claim as stated fails: a request with an empty \<open>messages\<close> list from a client
  without a bucket is answered by the validation failure, and afterwards the client has a
  bucket from which one token has been taken.
\<close>

theorem empty_messages_consume_token_counterexample:
  "messages empty_body = []
   \<and> buckets (limiter app0) ''10.0.0.1'' = None
   \<and> fst (chat_route settings0 env0 request0 empty_body app0)
       = ErrorResponse (ValidationError ''messages'')
   \<and> buckets (limiter (snd (chat_route settings0 env0 request0 empty_body app0))) ''10.0.0.1''
       = Some \<lparr>tokens = 5, timestamp = 0\<rparr>"
  by (simp add: chat_route_def enforce_rate_limit_def verify_api_key_def settings0_def
      request0_def client_identifier_from_headers_def truthy_str_def app0_def env0_def
      empty_body_def allow_def Let_def ChatRequest_validate_def validate_messages_def)












end
